theory Spec2Isabelle
  imports Main
begin

section \<open>The MongoDB bootstrap script \<^verbatim>\<open>mongo-init.js\<close>\<close>

text \<open>
  The script is a straight line of calls of the MongoDB shell API against a server:
  \<^verbatim>\<open>
  db.createUser({ user: "admin", pwd: "password",
                  roles: [ { role: "readWrite", db: "telegram_cache" },
                           { role: "dbAdmin",   db: "telegram_cache" } ] });
  db = db.getSiblingDB('telegram_cache');
  db.createCollection('messages');
  db.createCollection('events');
  db.createCollection('audit_log');
  db.messages.createIndex({ "text": "text", "caption": "text" });
  \<close>
  The server is an explicit state: the users with the database each is defined in, the
  collections by namespace (database, name) in the order of their creation, each with its
  indexes, its validator and its documents, the counter the server draws fresh
  \<^verbatim>\<open>ObjectId\<close>s from, the shell's variable \<^verbatim>\<open>db\<close>, and the
  environment of the process (which no call of the script reads). The users are kept
  apart from the collections: the system collections the server stores them in are its
  own, and are not counted among the collections of a database. A call that throws is
  a value \<open>Inl\<close> of the error; the shell stops a script at the first call that throws,
  and what the earlier calls did stays done.
\<close>

subsection \<open>Documents, indexes, collections, users\<close>

datatype bson = BString string | BInt int | ObjectId nat

type_synonym document = "(string \<times> bson) list"

datatype index_kind = Ascending | Descending | Text

record index_spec =
  key :: "(string \<times> index_kind) list"
  unique :: bool

record collection =
  indexes :: "index_spec list"
  validator :: "(document \<Rightarrow> bool) option"
  docs :: "document list"

record role_doc =
  role :: string
  db :: string

record user_doc =
  user :: string
  pwd :: string
  roles :: "role_doc list"

type_synonym namespace = "string \<times> string"

record mongo =
  users :: "(string \<times> user_doc) list"
  collections :: "(namespace \<times> collection) list"
  next_oid :: nat
  current_db :: string
  environ :: "(string \<times> string) list"

datatype mongo_error =
    UserAlreadyExists
  | NamespaceExists
  | IndexOptionsConflict
  | DuplicateKey

text \<open>
  Every collection is born with the unique index on \<^verbatim>\<open>_id\<close>; a collection created
  with no options has no validator.
\<close>

definition id_index :: index_spec where
  "id_index = \<lparr>key = [(''_id'', Ascending)], unique = True\<rparr>"

definition new_collection :: collection where
  "new_collection = \<lparr>indexes = [id_index], validator = None, docs = []\<rparr>"

definition get_collection :: "mongo \<Rightarrow> namespace \<Rightarrow> collection" where
  "get_collection s ns =
     (case map_of (collections s) ns of Some c \<Rightarrow> c | None \<Rightarrow> new_collection)"

fun put_collection ::
  "namespace \<Rightarrow> collection \<Rightarrow> (namespace \<times> collection) list \<Rightarrow> (namespace \<times> collection) list"
where
  "put_collection ns c [] = [(ns, c)]"
| "put_collection ns c ((k, v) # cs) =
     (if k = ns then (ns, c) # cs else (k, v) # put_collection ns c cs)"

text \<open>The key a document has under an index: the values of the indexed fields, a missing
  field counting as null.\<close>

definition index_key :: "index_spec \<Rightarrow> document \<Rightarrow> bson option list" where
  "index_key ix d = map (\<lambda>(f, k). map_of d f) (key ix)"

definition is_text_key :: "(string \<times> index_kind) list \<Rightarrow> bool" where
  "is_text_key ks = list_ex (\<lambda>(f, k). k = Text) ks"

subsection \<open>The shell API the script calls\<close>

text \<open>
  \<^verbatim>\<open>db.createUser(u)\<close> defines the user in the shell's current database and throws when
  that database already has a user of the name. The roles may name any database.
\<close>

definition createUser :: "user_doc \<Rightarrow> mongo \<Rightarrow> mongo_error + mongo" where
  "createUser u s =
     (if list_ex (\<lambda>(d, v). d = current_db s \<and> user v = user u) (users s)
      then Inl UserAlreadyExists
      else Inr (s\<lparr>users := users s @ [(current_db s, u)]\<rparr>))"

text \<open>\<^verbatim>\<open>db = db.getSiblingDB(name)\<close> only rebinds the shell's variable; it never throws and
  creates nothing on the server.\<close>

definition getSiblingDB :: "string \<Rightarrow> mongo \<Rightarrow> mongo_error + mongo" where
  "getSiblingDB name s = Inr (s\<lparr>current_db := name\<rparr>)"

text \<open>\<^verbatim>\<open>db.createCollection(name)\<close>, with no options, throws when the namespace exists.\<close>

definition createCollection :: "string \<Rightarrow> mongo \<Rightarrow> mongo_error + mongo" where
  "createCollection name s =
     (case map_of (collections s) (current_db s, name) of
        Some c \<Rightarrow> Inl NamespaceExists
      | None \<Rightarrow>
          Inr (s\<lparr>collections := collections s @ [((current_db s, name), new_collection)]\<rparr>))"

text \<open>
  \<^verbatim>\<open>db.<name>.createIndex(keys, {unique: u})\<close> creates the collection when it is missing;
  it is a no-op when the same index exists, throws when an index of the same keys and
  other options or a second text index is asked for, and throws when a unique index is
  asked for over documents that already share a key. The script calls it with no
  options, that is with \<open>u = False\<close>.
\<close>

definition createIndex ::
  "string \<Rightarrow> (string \<times> index_kind) list \<Rightarrow> bool \<Rightarrow> mongo \<Rightarrow> mongo_error + mongo"
where
  "createIndex name keys u s =
     (let ns = (current_db s, name);
          c = get_collection s ns;
          ix = \<lparr>key = keys, unique = u\<rparr>
      in if ix \<in> set (indexes c) then
           Inr (s\<lparr>collections := put_collection ns c (collections s)\<rparr>)
         else if list_ex (\<lambda>j. key j = keys) (indexes c) then Inl IndexOptionsConflict
         else if is_text_key keys \<and> list_ex (\<lambda>j. is_text_key (key j)) (indexes c)
           then Inl IndexOptionsConflict
         else if u \<and> \<not> distinct (map (index_key ix) (docs c)) then Inl DuplicateKey
         else Inr (s\<lparr>collections :=
                      put_collection ns (c\<lparr>indexes := indexes c @ [ix]\<rparr>) (collections s)\<rparr>))"

subsection \<open>The script\<close>

type_synonym statement = "mongo \<Rightarrow> mongo_error + mongo"

text \<open>Statements run in order; the first that throws ends the run, with the server as
  the earlier statements left it.\<close>

fun run :: "statement list \<Rightarrow> mongo \<Rightarrow> (mongo_error \<times> mongo) + mongo" where
  "run [] s = Inr s"
| "run (f # fs) s = (case f s of Inl e \<Rightarrow> Inl (e, s) | Inr s' \<Rightarrow> run fs s')"

definition admin_user :: user_doc where
  "admin_user =
     \<lparr>user = ''admin'',
      pwd = ''password'',
      roles = [\<lparr>role = ''readWrite'', db = ''telegram_cache''\<rparr>,
               \<lparr>role = ''dbAdmin'', db = ''telegram_cache''\<rparr>]\<rparr>"

definition script :: "statement list" where
  "script =
     [createUser admin_user,
      getSiblingDB ''telegram_cache'',
      createCollection ''messages'',
      createCollection ''events'',
      createCollection ''audit_log'',
      createIndex ''messages'' [(''text'', Text), (''caption'', Text)] False]"

definition mongo_init :: "mongo \<Rightarrow> (mongo_error \<times> mongo) + mongo" where
  "mongo_init s = run script s"

text \<open>A server with an empty data directory: the shell starts in database \<open>d\<close>, under
  the environment \<open>env\<close>.\<close>

definition fresh_server :: "string \<Rightarrow> (string \<times> string) list \<Rightarrow> mongo" where
  "fresh_server d env =
     \<lparr>users = [], collections = [], next_oid = 0, current_db = d, environ = env\<rparr>"

text \<open>Where a run ended: the server as the last statement that ran left it.\<close>

definition final :: "(mongo_error \<times> mongo) + mongo \<Rightarrow> mongo" where
  "final r = (case r of Inl (e, s) \<Rightarrow> s | Inr s \<Rightarrow> s)"

text \<open>What \<^verbatim>\<open>getIndexes()\<close> lists over all collections, and the name and password of
  every user.\<close>

definition index_catalogue :: "mongo \<Rightarrow> (namespace \<times> index_spec) list" where
  "index_catalogue s = concat (map (\<lambda>(ns, c). map (Pair ns) (indexes c)) (collections s))"

definition credentials :: "mongo \<Rightarrow> (string \<times> string) list" where
  "credentials s = map (\<lambda>(d, u). (user u, pwd u)) (users s)"

definition text_index :: index_spec where
  "text_index = \<lparr>key = [(''text'', Text), (''caption'', Text)], unique = False\<rparr>"

text \<open>
  What a role lets its holder do to the documents of the database it is granted on: of
  MongoDB's built-in roles, \<^verbatim>\<open>read\<close> carries \<^verbatim>\<open>find\<close>, \<^verbatim>\<open>readWrite\<close> carries
  \<^verbatim>\<open>find\<close>, \<^verbatim>\<open>insert\<close>, \<^verbatim>\<open>update\<close> and \<^verbatim>\<open>remove\<close>, and \<^verbatim>\<open>dbAdmin\<close>
  carries administrative actions only.
\<close>

datatype action = Find | Insert | Update | Remove

definition role_actions :: "string \<Rightarrow> action list" where
  "role_actions r =
     (if r = ''read'' then [Find]
      else if r = ''readWrite'' then [Find, Insert, Update, Remove]
      else [])"

definition may :: "user_doc \<Rightarrow> string \<Rightarrow> action \<Rightarrow> bool" where
  "may u d a = list_ex (\<lambda>r. db r = d \<and> a \<in> set (role_actions (role r))) (roles u)"

section \<open>The container build file\<close>

text \<open>
  The build file kept beside the script:
  \<^verbatim>\<open>
  FROM python:3.11-slim
  WORKDIR /app
  RUN apt-get update && apt-get install -y gcc && rm -rf /var/lib/apt/lists/*
  COPY requirements.txt .
  RUN pip install --no-cache-dir -r requirements.txt
  COPY . .
  RUN mkdir -p logs data
  ENV PYTHONUNBUFFERED=1
  ENV PYTHONPATH=/app
  CMD ["python", "main.py"]
  \<close>
  The inputs of a build are the registry, which holds the base image the first line
  names, and the build context, that is the files beside the build file; neither is part
  of the repository. A file is known by what it is: a program with its behaviour when
  run (it runs until it is stopped, or it exits with a code), a list of packages, a
  directory, or anything else. An image is the working directory, whether the package
  lists of \<^verbatim>\<open>apt\<close> are present, the system packages and the \<^verbatim>\<open>pip\<close> packages
  installed, the files (a later write shadows an earlier one), the environment, and the
  entry point and the command of a container. An instruction that fails ends the build.
\<close>

datatype behaviour = LongRunning | Exits int

datatype content = Program behaviour | PackageList "string list" | Directory | Plain

record image =
  workdir :: string
  apt_lists :: bool
  apt_packages :: "string list"
  pip_packages :: "string list"
  files :: "(string \<times> content) list"
  env :: "(string \<times> string) list"
  entrypoint :: "string list"
  cmd :: "string list"

datatype build_error =
    ImageNotFound string
  | NotInContext string
  | NoSuchFile string
  | NotARequirementsFile string
  | PackageNotFound "string list"
  | FileExists string

type_synonym instruction = "image \<Rightarrow> build_error + image"

definition FROM :: "(string \<times> image) list \<Rightarrow> string \<Rightarrow> build_error + image" where
  "FROM registry name =
     (case map_of registry name of None \<Rightarrow> Inl (ImageNotFound name) | Some b \<Rightarrow> Inr b)"

text \<open>A relative path is taken from the working directory.\<close>

definition resolve :: "string \<Rightarrow> string \<Rightarrow> string" where
  "resolve wd p =
     (if p = ''.'' then wd
      else if wd = ''/'' then ''/'' @ p
      else wd @ ''/'' @ p)"

definition WORKDIR :: "string \<Rightarrow> instruction" where
  "WORKDIR d img =
     Inr (img\<lparr>workdir := (case d of CHR ''/'' # r \<Rightarrow> d | _ \<Rightarrow> resolve (workdir img) d)\<rparr>)"

text \<open>\<^verbatim>\<open>COPY src dst\<close> copies a file of the build context, or all of it when the
  source is \<^verbatim>\<open>.\<close>, into the directory \<open>dst\<close>; a source that the context lacks fails
  the build.\<close>

definition COPY :: "(string \<times> content) list \<Rightarrow> string \<Rightarrow> string \<Rightarrow> instruction" where
  "COPY ctx src dst img =
     (let dir = resolve (workdir img) dst
      in if src = ''.''
         then Inr (img\<lparr>files := map (\<lambda>(f, c). (resolve dir f, c)) ctx @ files img\<rparr>)
         else (case map_of ctx src of
                 None \<Rightarrow> Inl (NotInContext src)
               | Some c \<Rightarrow> Inr (img\<lparr>files := (resolve dir src, c) # files img\<rparr>)))"

text \<open>The shell commands of the \<^verbatim>\<open>RUN\<close> lines. \<^verbatim>\<open>apt-get install\<close> finds a
  package only while the package lists are there; \<^verbatim>\<open>pip install -r\<close> installs the
  packages the file lists and fails when the file is missing or is no such list;
  \<^verbatim>\<open>mkdir -p\<close> leaves a directory that exists alone and fails on a path that is a
  file.\<close>

definition apt_get_update :: instruction where
  "apt_get_update img = Inr (img\<lparr>apt_lists := True\<rparr>)"

definition apt_get_install :: "string list \<Rightarrow> instruction" where
  "apt_get_install pkgs img =
     (if apt_lists img then Inr (img\<lparr>apt_packages := apt_packages img @ pkgs\<rparr>)
      else Inl (PackageNotFound pkgs))"

definition rm_rf_apt_lists :: instruction where
  "rm_rf_apt_lists img = Inr (img\<lparr>apt_lists := False\<rparr>)"

definition pip_install_r :: "string \<Rightarrow> instruction" where
  "pip_install_r file img =
     (let p = resolve (workdir img) file
      in case map_of (files img) p of
           None \<Rightarrow> Inl (NoSuchFile p)
         | Some c \<Rightarrow>
             (case c of
                PackageList pkgs \<Rightarrow> Inr (img\<lparr>pip_packages := pip_packages img @ pkgs\<rparr>)
              | _ \<Rightarrow> Inl (NotARequirementsFile p)))"

fun mkdir_p :: "string list \<Rightarrow> instruction" where
  "mkdir_p [] img = Inr img"
| "mkdir_p (d # ds) img =
     (case map_of (files img) (resolve (workdir img) d) of
        None \<Rightarrow> mkdir_p ds (img\<lparr>files := (resolve (workdir img) d, Directory) # files img\<rparr>)
      | Some c \<Rightarrow>
          if c = Directory then mkdir_p ds img
          else Inl (FileExists (resolve (workdir img) d)))"

text \<open>The shell's \<^verbatim>\<open>&&\<close>: the second command runs only when the first succeeded.\<close>

definition and_then :: "instruction \<Rightarrow> instruction \<Rightarrow> instruction" where
  "and_then f g img = (case f img of Inl e \<Rightarrow> Inl e | Inr img' \<Rightarrow> g img')"

definition RUN :: "instruction \<Rightarrow> instruction" where
  "RUN command img = command img"

definition ENV :: "string \<Rightarrow> string \<Rightarrow> instruction" where
  "ENV k v img = Inr (img\<lparr>env := (k, v) # filter (\<lambda>(k', v'). k' \<noteq> k) (env img)\<rparr>)"

definition CMD :: "string list \<Rightarrow> instruction" where
  "CMD argv img = Inr (img\<lparr>cmd := argv\<rparr>)"

fun build :: "instruction list \<Rightarrow> image \<Rightarrow> build_error + image" where
  "build [] img = Inr img"
| "build (i # is) img = (case i img of Inl e \<Rightarrow> Inl e | Inr img' \<Rightarrow> build is img')"

definition dockerfile ::
  "(string \<times> image) list \<Rightarrow> (string \<times> content) list \<Rightarrow> build_error + image"
where
  "dockerfile registry ctx =
     (case FROM registry ''python:3.11-slim'' of
        Inl e \<Rightarrow> Inl e
      | Inr base \<Rightarrow>
          build
            [WORKDIR ''/app'',
             RUN (and_then apt_get_update
                    (and_then (apt_get_install [''gcc'']) rm_rf_apt_lists)),
             COPY ctx ''requirements.txt'' ''.'',
             RUN (pip_install_r ''requirements.txt''),
             COPY ctx ''.'' ''.'',
             RUN (mkdir_p [''logs'', ''data'']),
             ENV ''PYTHONUNBUFFERED'' ''1'',
             ENV ''PYTHONPATH'' ''/app'',
             CMD [''python'', ''main.py'']]
            base)"

text \<open>
  What a container of the image does when it starts: it runs one process, whose
  arguments are the entry point followed by the command, in the working directory.
  \<^verbatim>\<open>python file\<close> runs the program the file holds; it exits with 2 when it cannot
  open the file and with 1 when the file is no program. Other command lines are outside
  the model (\<open>None\<close>).
\<close>

definition container_argv :: "image \<Rightarrow> string list" where
  "container_argv img = entrypoint img @ cmd img"

definition container_start :: "image \<Rightarrow> behaviour option" where
  "container_start img =
     (case container_argv img of
        [exe, f] \<Rightarrow>
          if exe = ''python''
          then (case map_of (files img) (resolve (workdir img) f) of
                  None \<Rightarrow> Some (Exits 2)
                | Some c \<Rightarrow> (case c of Program p \<Rightarrow> Some p | _ \<Rightarrow> Some (Exits 1)))
          else None
      | _ \<Rightarrow> None)"

section \<open>The ingestion core\<close>

text \<open>
  Modelled from the spec: \<^verbatim>\<open>main.py\<close>, the program the build file copies into the image
  and starts, is not among the sources, and with it the whole ingestion core is missing:
  the Normalizer, the Dedup/Idempotency Gate, the Store Adapter's \<^verbatim>\<open>put\<close> and the
  Audit Recorder. The definitions of this section follow the words of the specification
  (its data model and its component contracts); nothing in them is taken from code.
\<close>

subsection \<open>Data model\<close>

text \<open>Modelled from the spec: the types of an Event.\<close>

datatype event_type = Created | Edited | Deleted | Reacted

text \<open>Modelled from the spec: the Message record of the data model (\<open>body\<close> is its field
  \<^verbatim>\<open>text\<close>), with the tombstone of a logical delete.\<close>

record message =
  msg_id :: string
  chat_id :: int
  sender_id :: int
  body :: "string option"
  caption :: "string option"
  attachments :: "string list"
  timestamp :: nat
  edit_count :: nat
  tombstoned :: bool

text \<open>Modelled from the spec: the Event record of the data model.\<close>

record event =
  event_id :: string
  kind :: event_type
  message_id :: "string option"
  payload :: string
  event_timestamp :: nat

text \<open>Modelled from the spec: a normalized record is a Message or an Event.\<close>

datatype stored = Message message | Event event

text \<open>Modelled from the spec: the operations an audit entry can record, one for each
  step of the lifecycle of a record (created, mutated, logically deleted).\<close>

datatype operation = Create | Mutate | Tombstone

text \<open>Modelled from the spec: the AuditLogEntry record of the data model.\<close>

record audit_log_entry =
  entry_id :: nat
  operation :: operation
  actor :: string
  target_collection :: string
  target_id :: string
  before :: "stored option"
  after :: "stored option"
  entry_timestamp :: nat

text \<open>Modelled from the spec: the three logical collections of the Store Adapter.\<close>

record store =
  messages :: "message list"
  events :: "event list"
  audit_log :: "audit_log_entry list"

definition empty_store :: store where
  "empty_store = \<lparr>messages = [], events = [], audit_log = []\<rparr>"

text \<open>Modelled from the spec: its taxonomy of errors.\<close>

datatype core_error = MalformedEventError | ConflictError | IndexUpdateError | AuditWriteError

subsection \<open>Normalizer\<close>

text \<open>Modelled from the spec: the raw platform payload the Normalizer accepts; the source
  identifier and the timestamp may be absent.\<close>

record raw_event =
  raw_id :: "string option"
  raw_kind :: "event_type option"
  raw_message_id :: "string option"
  raw_chat_id :: int
  raw_sender_id :: int
  raw_text :: "string option"
  raw_caption :: "string option"
  raw_attachments :: "string list"
  raw_payload :: string
  raw_timestamp :: "nat option"

text \<open>Modelled from the spec: the Normalizer is pure; it returns a normalized Message or
  Event, or fails with \<open>MalformedEventError\<close> when the source identifier or the
  timestamp is absent or malformed (an empty identifier). A payload that names no event
  type is a message.\<close>

definition normalize_raw :: "raw_event \<Rightarrow> core_error + stored" where
  "normalize_raw raw =
     (case (raw_id raw, raw_timestamp raw) of
        (Some i, Some t) \<Rightarrow>
          if i = [] then Inl MalformedEventError
          else (case raw_kind raw of
                  None \<Rightarrow>
                    Inr (Message \<lparr>msg_id = i, chat_id = raw_chat_id raw,
                                   sender_id = raw_sender_id raw, body = raw_text raw,
                                   caption = raw_caption raw,
                                   attachments = raw_attachments raw, timestamp = t,
                                   edit_count = 0, tombstoned = False\<rparr>)
                | Some k \<Rightarrow>
                    Inr (Event \<lparr>event_id = i, kind = k, message_id = raw_message_id raw,
                                 payload = raw_payload raw, event_timestamp = t\<rparr>))
      | _ \<Rightarrow> Inl MalformedEventError)"

subsection \<open>Dedup/Idempotency Gate\<close>

text \<open>Modelled from the spec: the identifier of a record, the logical collection it
  belongs to, and the identifiers the store holds.\<close>

definition ident_of :: "stored \<Rightarrow> string" where
  "ident_of r = (case r of Message m \<Rightarrow> msg_id m | Event e \<Rightarrow> event_id e)"

definition collection_of :: "stored \<Rightarrow> string" where
  "collection_of r = (case r of Message m \<Rightarrow> ''messages'' | Event e \<Rightarrow> ''events'')"

definition stored_ids :: "store \<Rightarrow> string list" where
  "stored_ids s = map msg_id (messages s) @ map event_id (events s)"

text \<open>Modelled from the spec: the two answers of the gate.\<close>

datatype gate_result = Accept | Reject string

text \<open>Modelled from the spec: given a source identifier, the gate accepts when the
  identifier has not been seen and rejects, naming the existing identifier, when it is
  already stored.\<close>

definition gate :: "store \<Rightarrow> string \<Rightarrow> gate_result" where
  "gate s i = (if i \<in> set (stored_ids s) then Reject i else Accept)"

subsection \<open>Store Adapter\<close>

text \<open>Modelled from the spec: the circumstances of a call, that is the actor, the time,
  and the two failures the specification names for the store: whether the text index
  can be maintained, and whether the store is available when the audit entry is
  written.\<close>

record circumstances =
  index_up :: bool
  store_up :: bool
  caller :: string
  at_time :: nat

text \<open>Modelled from the spec: \<^verbatim>\<open>get(id)\<close>, the stored record that has the identifier
  of \<open>r\<close>, in the collection of \<open>r\<close>.\<close>

definition current :: "store \<Rightarrow> stored \<Rightarrow> stored option" where
  "current s r =
     (case r of
        Message m \<Rightarrow> map_option Message (find (\<lambda>x. msg_id x = msg_id m) (messages s))
      | Event e \<Rightarrow> map_option Event (find (\<lambda>x. event_id x = event_id e) (events s)))"

text \<open>Modelled from the spec: \<^verbatim>\<open>put(record)\<close> is an upsert keyed by identifier. It fails
  with \<open>ConflictError\<close> when a tombstoned message is targeted for a non-tombstone
  mutation without the explicit override, and when a stored event, which is never
  mutated, would be changed. The text index over \<^verbatim>\<open>text\<close> and \<^verbatim>\<open>caption\<close> is
  maintained in the same write of a message: when it cannot be, the write fails with
  \<open>IndexUpdateError\<close>.\<close>

definition put :: "circumstances \<Rightarrow> bool \<Rightarrow> stored \<Rightarrow> store \<Rightarrow> core_error + store" where
  "put w override r s =
     (case r of
        Message m \<Rightarrow>
          (case find (\<lambda>x. msg_id x = msg_id m) (messages s) of
             None \<Rightarrow>
               if index_up w then Inr (s\<lparr>messages := messages s @ [m]\<rparr>)
               else Inl IndexUpdateError
           | Some old \<Rightarrow>
               if tombstoned old \<and> \<not> tombstoned m \<and> \<not> override then Inl ConflictError
               else if index_up w
                 then Inr (s\<lparr>messages :=
                              map (\<lambda>x. if msg_id x = msg_id m then m else x) (messages s)\<rparr>)
               else Inl IndexUpdateError)
      | Event e \<Rightarrow>
          (case find (\<lambda>x. event_id x = event_id e) (events s) of
             None \<Rightarrow> Inr (s\<lparr>events := events s @ [e]\<rparr>)
           | Some old \<Rightarrow> if old = e then Inr s else Inl ConflictError))"

subsection \<open>Audit Recorder\<close>

text \<open>Modelled from the spec: \<^verbatim>\<open>record(operation, actor, target, before, after)\<close> appends
  one entry; it fails with \<open>AuditWriteError\<close> only if the underlying store is
  unavailable when the entry is written.\<close>

definition record_audit ::
  "circumstances \<Rightarrow> operation \<Rightarrow> stored \<Rightarrow> stored option \<Rightarrow> stored option \<Rightarrow> store
     \<Rightarrow> core_error + store"
where
  "record_audit w oper target bef aft s =
     (if store_up w
      then Inr (s\<lparr>audit_log := audit_log s @
                  [\<lparr>entry_id = length (audit_log s), operation = oper, actor = caller w,
                    target_collection = collection_of target,
                    target_id = ident_of target, before = bef, after = aft,
                    entry_timestamp = at_time w\<rparr>]\<rparr>)
      else Inl AuditWriteError)"

text \<open>Modelled from the spec: the operation a write amounts to, by the lifecycle of the
  record it targets.\<close>

definition operation_of :: "store \<Rightarrow> stored \<Rightarrow> operation" where
  "operation_of s r =
     (case current s r of
        None \<Rightarrow> Create
      | Some old \<Rightarrow>
          (case r of Message m \<Rightarrow> if tombstoned m then Tombstone else Mutate
                   | Event e \<Rightarrow> Mutate))"

text \<open>Modelled from the spec: what a caller is told.\<close>

datatype outcome = Accepted | Rejected string | Unchanged | Failed core_error

text \<open>Modelled from the spec: a mutation and its audit write are one atomic unit. The
  write is made, then the entry; when the entry cannot be written the mutation is rolled
  back, so the store is as it was. A \<^verbatim>\<open>put\<close> of the record that is stored already
  changes nothing and is no mutation.\<close>

definition mutate :: "circumstances \<Rightarrow> bool \<Rightarrow> stored \<Rightarrow> store \<Rightarrow> outcome \<times> store" where
  "mutate w override r s =
     (if current s r = Some r then (Unchanged, s)
      else (case put w override r s of
              Inl e \<Rightarrow> (Failed e, s)
            | Inr s1 \<Rightarrow>
                (case record_audit w (operation_of s r) r (current s r) (Some r) s1 of
                   Inl e \<Rightarrow> (Failed e, s)
                 | Inr s2 \<Rightarrow> (Accepted, s2))))"

subsection \<open>Ingestion\<close>

text \<open>Modelled from the spec: the data flow inbound event, Normalizer, Dedup Gate, Store
  Adapter with the Audit Recorder, acknowledgement.\<close>

definition submit :: "circumstances \<Rightarrow> raw_event \<Rightarrow> store \<Rightarrow> outcome \<times> store" where
  "submit w raw s =
     (case normalize_raw raw of
        Inl e \<Rightarrow> (Failed e, s)
      | Inr r \<Rightarrow>
          (case gate s (ident_of r) of
             Reject existing \<Rightarrow> (Rejected existing, s)
           | Accept \<Rightarrow> mutate w False r s))"

text \<open>Modelled from the spec: the operations a caller can ask of the core, an inbound
  event to ingest or a record to \<^verbatim>\<open>put\<close>, and a sequence of such calls served one
  after the other.\<close>

datatype request = Submit raw_event | Put bool stored

definition serve :: "circumstances \<times> request \<Rightarrow> store \<Rightarrow> outcome \<times> store" where
  "serve c s =
     (case snd c of
        Submit raw \<Rightarrow> submit (fst c) raw s
      | Put override r \<Rightarrow> mutate (fst c) override r s)"

fun serve_all :: "(circumstances \<times> request) list \<Rightarrow> store \<Rightarrow> outcome list \<times> store" where
  "serve_all [] s = ([], s)"
| "serve_all (c # cs) s =
     (case serve c s of
        (r, s') \<Rightarrow> (case serve_all cs s' of (rs, s'') \<Rightarrow> (r # rs, s'')))"

text \<open>The record a call asks the store to hold, if any: what the Normalizer makes of a
  submitted payload, or the record handed to \<^verbatim>\<open>put\<close>.\<close>

definition record_of :: "circumstances \<times> request \<Rightarrow> stored option" where
  "record_of c =
     (case snd c of
        Submit raw \<Rightarrow> (case normalize_raw raw of Inl e \<Rightarrow> None | Inr r \<Rightarrow> Some r)
      | Put override r \<Rightarrow> Some r)"

text \<open>Traceability of a store: every stored message and every stored event, as it
  stands, is the \<open>after\<close> snapshot of an audit entry for it.\<close>

definition traced :: "store \<Rightarrow> bool" where
  "traced s \<longleftrightarrow>
     list_all (\<lambda>m. list_ex (\<lambda>e. after e = Some (Message m) \<and> target_id e = msg_id m \<and>
                               target_collection e = ''messages'') (audit_log s)) (messages s) \<and>
     list_all (\<lambda>v. list_ex (\<lambda>e. after e = Some (Event v) \<and> target_id e = event_id v \<and>
                               target_collection e = ''events'') (audit_log s)) (events s)"

text \<open>Whether a call is a submission that carries the source identifier \<open>i\<close>, and
  how many such submissions a run accepted.\<close>

definition submits :: "string \<Rightarrow> circumstances \<times> request \<Rightarrow> bool" where
  "submits i c = (case snd c of Submit raw \<Rightarrow> raw_id raw = Some i | Put override r \<Rightarrow> False)"

definition accepted_submissions ::
  "string \<Rightarrow> (circumstances \<times> request) list \<Rightarrow> outcome list \<Rightarrow> nat" where
  "accepted_submissions i cs rs =
     length (filter (\<lambda>(c, r). submits i c \<and> r = Accepted) (zip cs rs))"

section \<open>Properties of the bootstrap script\<close>

subsection \<open>What a run does\<close>

lemma put_collection_fresh:
  "map_of cs ns = None \<Longrightarrow> put_collection ns c (cs @ (ns, c0) # rest) = cs @ (ns, c) # rest"
  by (induction cs) (auto split: if_splits)

lemma map_of_append_fresh:
  "map_of cs k = None \<Longrightarrow> map_of (cs @ (k, v) # rest) k = Some v"
  by (induction cs) auto

lemma map_of_put_collection:
  "map_of (put_collection ns c cs) = (map_of cs)(ns \<mapsto> c)"
  by (induction cs) (auto simp: fun_eq_iff)

lemma run_Cons_Inr:
  "run (f # fs) s = Inr s' \<longleftrightarrow> (\<exists>s1. f s = Inr s1 \<and> run fs s1 = Inr s')"
  by (simp split: sum.splits)

lemma run_Cons_Inl:
  "run (f # fs) s = Inl (e, t) \<longleftrightarrow>
     (f s = Inl e \<and> t = s) \<or> (\<exists>s1. f s = Inr s1 \<and> run fs s1 = Inl (e, t))"
  by (auto split: sum.splits)

lemma createUser_Inr:
  "createUser u s = Inr s' \<longleftrightarrow>
     \<not> list_ex (\<lambda>(d, v). d = current_db s \<and> user v = user u) (users s) \<and>
     s' = s\<lparr>users := users s @ [(current_db s, u)]\<rparr>"
  by (auto simp: createUser_def)

lemma createCollection_Inr:
  "createCollection n s = Inr s' \<longleftrightarrow>
     map_of (collections s) (current_db s, n) = None \<and>
     s' = s\<lparr>collections := collections s @ [((current_db s, n), new_collection)]\<rparr>"
  by (auto simp: createCollection_def split: option.splits)

lemma createIndex_text_new:
  assumes "map_of cs (d, n) = None"
  shows "createIndex n [(''text'', Text), (''caption'', Text)] False
           (s\<lparr>current_db := d, collections := cs @ ((d, n), new_collection) # rest\<rparr>) =
         Inr (s\<lparr>current_db := d,
                collections := cs @ ((d, n), new_collection\<lparr>indexes := [id_index, text_index]\<rparr>) # rest\<rparr>)"
proof -
  let ?s = "s\<lparr>current_db := d, collections := cs @ ((d, n), new_collection) # rest\<rparr>"
  have g: "get_collection ?s (d, n) = new_collection"
    using assms by (simp add: get_collection_def map_of_append_fresh del: map_of_append)
  show ?thesis
    unfolding createIndex_def Let_def
    using assms
    by (simp add: g put_collection_fresh del: map_of_append)
       (simp add: new_collection_def id_index_def is_text_key_def text_index_def)
qed

lemma mongo_init_Inr:
  assumes "mongo_init s = Inr s'"
  shows "s' = s\<lparr>users := users s @ [(current_db s, admin_user)],
               current_db := ''telegram_cache'',
               collections := collections s @
                 [((''telegram_cache'', ''messages''), new_collection\<lparr>indexes := [id_index, text_index]\<rparr>),
                  ((''telegram_cache'', ''events''), new_collection),
                  ((''telegram_cache'', ''audit_log''), new_collection)]\<rparr>"
    and "map_of (collections s) (''telegram_cache'', ''messages'') = None"
    and "map_of (collections s) (''telegram_cache'', ''events'') = None"
    and "map_of (collections s) (''telegram_cache'', ''audit_log'') = None"
    and "\<not> list_ex (\<lambda>(d, v). d = current_db s \<and> user v = ''admin'') (users s)"
proof -
  from assms obtain s1 s2 s3 s4 s5 where
    1: "createUser admin_user s = Inr s1" and
    2: "getSiblingDB ''telegram_cache'' s1 = Inr s2" and
    3: "createCollection ''messages'' s2 = Inr s3" and
    4: "createCollection ''events'' s3 = Inr s4" and
    5: "createCollection ''audit_log'' s4 = Inr s5" and
    6: "createIndex ''messages'' [(''text'', Text), (''caption'', Text)] False s5 = Inr s'"
    unfolding mongo_init_def script_def run_Cons_Inr by auto
  from 1 have s1: "s1 = s\<lparr>users := users s @ [(current_db s, admin_user)]\<rparr>"
    and u: "\<not> list_ex (\<lambda>(d, v). d = current_db s \<and> user v = user admin_user) (users s)"
    by (simp_all add: createUser_Inr)
  from u show "\<not> list_ex (\<lambda>(d, v). d = current_db s \<and> user v = ''admin'') (users s)"
    by (simp add: admin_user_def)
  from 2 have s2: "s2 = s1\<lparr>current_db := ''telegram_cache''\<rparr>"
    by (simp add: getSiblingDB_def)
  from 3 show f: "map_of (collections s) (''telegram_cache'', ''messages'') = None"
    by (simp add: createCollection_Inr s2 s1)
  from 3 have s3: "s3 = s2\<lparr>collections := collections s2 @ [((''telegram_cache'', ''messages''), new_collection)]\<rparr>"
    by (simp add: createCollection_Inr s2 s1)
  from 4 show "map_of (collections s) (''telegram_cache'', ''events'') = None"
    by (simp add: createCollection_Inr s3 s2 s1 map_add_def split: option.splits if_splits)
  from 4 have s4: "s4 = s3\<lparr>collections := collections s3 @ [((''telegram_cache'', ''events''), new_collection)]\<rparr>"
    by (simp add: createCollection_Inr s3 s2 s1)
  from 5 show "map_of (collections s) (''telegram_cache'', ''audit_log'') = None"
    by (simp add: createCollection_Inr s4 s3 s2 s1 map_add_def split: option.splits if_splits)
  from 5 have s5: "s5 = s4\<lparr>collections := collections s4 @ [((''telegram_cache'', ''audit_log''), new_collection)]\<rparr>"
    by (simp add: createCollection_Inr s4 s3 s2 s1)
  have "s5 = s\<lparr>users := users s @ [(current_db s, admin_user)]\<rparr>\<lparr>current_db := ''telegram_cache'',
      collections := collections s @ ((''telegram_cache'', ''messages''), new_collection) #
         [((''telegram_cache'', ''events''), new_collection), ((''telegram_cache'', ''audit_log''), new_collection)]\<rparr>"
    by (simp add: s5 s4 s3 s2 s1)
  with 6 f show "s' = s\<lparr>users := users s @ [(current_db s, admin_user)],
               current_db := ''telegram_cache'',
               collections := collections s @
                 [((''telegram_cache'', ''messages''), new_collection\<lparr>indexes := [id_index, text_index]\<rparr>),
                  ((''telegram_cache'', ''events''), new_collection),
                  ((''telegram_cache'', ''audit_log''), new_collection)]\<rparr>"
    by (simp only: createIndex_text_new) simp
qed

lemma mongo_init_fresh:
  "mongo_init (fresh_server d vars) =
     Inr \<lparr>users = [(d, admin_user)],
          collections =
            [((''telegram_cache'', ''messages''), new_collection\<lparr>indexes := [id_index, text_index]\<rparr>),
             ((''telegram_cache'', ''events''), new_collection),
             ((''telegram_cache'', ''audit_log''), new_collection)],
          next_oid = 0, current_db = ''telegram_cache'', environ = vars\<rparr>"
  by (simp add: mongo_init_def script_def createUser_def getSiblingDB_def createCollection_def
      fresh_server_def createIndex_def get_collection_def new_collection_def id_index_def
      is_text_key_def text_index_def Let_def)

lemma mongo_init_user_exists:
  assumes "list_ex (\<lambda>(d, v). d = current_db s \<and> user v = ''admin'') (users s)"
  shows "mongo_init s = Inl (UserAlreadyExists, s)"
  using assms by (simp add: mongo_init_def script_def createUser_def admin_user_def)

lemma createCollection_users:
  "createCollection n s = Inr s' \<Longrightarrow> users s' = users s \<and> current_db s' = current_db s"
  by (auto simp: createCollection_def split: option.splits)

lemma createIndex_users:
  "createIndex n ks u s = Inr s' \<Longrightarrow> users s' = users s \<and> current_db s' = current_db s"
  by (auto simp: createIndex_def Let_def split: if_splits)

lemma createCollection_Inl: "createCollection n s = Inl e \<Longrightarrow> e = NamespaceExists"
  by (auto simp: createCollection_def split: option.splits)

lemma createIndex_Inl:
  "createIndex n ks u s = Inl e \<Longrightarrow> e = IndexOptionsConflict \<or> e = DuplicateKey"
  by (auto simp: createIndex_def Let_def split: if_splits)

lemma mongo_init_Inl:
  assumes "mongo_init s = Inl (e, t)"
  shows "(e = UserAlreadyExists \<and> t = s) \<or>
         (e \<noteq> UserAlreadyExists \<and> users t = users s @ [(current_db s, admin_user)] \<and>
          current_db t = ''telegram_cache'')"
proof (cases "createUser admin_user s")
  case (Inl e')
  with assms show ?thesis
    by (auto simp: mongo_init_def script_def createUser_def split: if_splits)
next
  case (Inr s1)
  then have s1: "users s1 = users s @ [(current_db s, admin_user)]"
    by (simp add: createUser_Inr)
  define s2 where "s2 = s1\<lparr>current_db := ''telegram_cache''\<rparr>"
  have g: "getSiblingDB ''telegram_cache'' s1 = Inr s2"
    by (simp add: getSiblingDB_def s2_def)
  have u2: "users s2 = users s @ [(current_db s, admin_user)]" "current_db s2 = ''telegram_cache''"
    by (simp_all add: s2_def s1)
  from assms Inr g have r: "run [createCollection ''messages'', createCollection ''events'',
      createCollection ''audit_log'',
      createIndex ''messages'' [(''text'', Text), (''caption'', Text)] False] s2 = Inl (e, t)"
    by (simp add: mongo_init_def script_def)
  then show ?thesis
    unfolding run_Cons_Inl
    using u2
    by (auto dest!: createCollection_users createIndex_users createCollection_Inl createIndex_Inl)
qed

lemma run_environ:
  assumes "\<And>f t. f \<in> set fs \<Longrightarrow> f (t\<lparr>environ := vars\<rparr>) = map_sum id (\<lambda>u. u\<lparr>environ := vars\<rparr>) (f t)"
  shows "run fs (s\<lparr>environ := vars\<rparr>) =
         map_sum (\<lambda>(e, t). (e, t\<lparr>environ := vars\<rparr>)) (\<lambda>t. t\<lparr>environ := vars\<rparr>) (run fs s)"
  using assms
proof (induction fs arbitrary: s)
  case Nil
  then show ?case by simp
next
  case (Cons f fs)
  have h: "f (s\<lparr>environ := vars\<rparr>) = map_sum id (\<lambda>u. u\<lparr>environ := vars\<rparr>) (f s)"
    by (rule Cons.prems) simp
  show ?case
  proof (cases "f s")
    case (Inl e)
    then show ?thesis by (simp add: h)
  next
    case (Inr s1)
    have "run fs (s1\<lparr>environ := vars\<rparr>) =
         map_sum (\<lambda>(e, t). (e, t\<lparr>environ := vars\<rparr>)) (\<lambda>t. t\<lparr>environ := vars\<rparr>) (run fs s1)"
      by (rule Cons.IH) (rule Cons.prems, simp)
    with Inr show ?thesis by (simp add: h)
  qed
qed

lemma script_environ:
  assumes "f \<in> set script"
  shows "f (t\<lparr>environ := vars\<rparr>) = map_sum id (\<lambda>u. u\<lparr>environ := vars\<rparr>) (f t)"
  using assms
  by (auto simp: script_def createUser_def getSiblingDB_def createCollection_def createIndex_def
      get_collection_def Let_def split: option.splits)

lemma mongo_init_environ:
  "mongo_init (s\<lparr>environ := vars\<rparr>) =
     map_sum (\<lambda>(e, t). (e, t\<lparr>environ := vars\<rparr>)) (\<lambda>t. t\<lparr>environ := vars\<rparr>) (mongo_init s)"
  unfolding mongo_init_def by (rule run_environ) (rule script_environ)

lemma final_mongo_init_users:
  "users (final (mongo_init s)) =
     (if list_ex (\<lambda>(d, v). d = current_db s \<and> user v = ''admin'') (users s)
      then users s else users s @ [(current_db s, admin_user)])"
proof (cases "mongo_init s")
  case (Inl p)
  obtain e t where p: "p = (e, t)" by (cases p)
  from mongo_init_Inl[OF Inl[unfolded p]] show ?thesis
  proof
    assume "e = UserAlreadyExists \<and> t = s"
    moreover from this Inl p have "createUser admin_user s = Inl UserAlreadyExists"
      by (auto simp: mongo_init_def script_def split: sum.splits dest: createCollection_Inl createIndex_Inl simp: getSiblingDB_def)
    ultimately show ?thesis using Inl p
      by (auto simp: final_def createUser_def admin_user_def split: if_splits)
  next
    assume a: "e \<noteq> UserAlreadyExists \<and> users t = users s @ [(current_db s, admin_user)] \<and>
          current_db t = ''telegram_cache''"
    have "\<not> list_ex (\<lambda>(d, v). d = current_db s \<and> user v = ''admin'') (users s)"
      using mongo_init_user_exists[of s] Inl p a by auto
    then show ?thesis using Inl p a by (simp add: final_def)
  qed
next
  case (Inr s')
  from mongo_init_Inr(1,5)[OF Inr] show ?thesis
    using Inr by (simp add: final_def)
qed

subsection \<open>The claims about the bootstrap\<close>

text \<open>
  Claim C3. The bootstrap creates exactly the three collections \<^verbatim>\<open>messages\<close>,
  \<^verbatim>\<open>events\<close> and \<^verbatim>\<open>audit_log\<close>, all in the database \<^verbatim>\<open>telegram_cache\<close>, and no
  other collection: after a run that completes, the namespaces of the server are those it
  had before, followed by these three, none of which existed before.
\<close>

theorem mongo_init_collections:
  assumes "mongo_init s = Inr s'"
  shows "map fst (collections s') =
           map fst (collections s) @
             [(''telegram_cache'', ''messages''), (''telegram_cache'', ''events''),
              (''telegram_cache'', ''audit_log'')] \<and>
         (''telegram_cache'', ''messages'') \<notin> set (map fst (collections s)) \<and>
         (''telegram_cache'', ''events'') \<notin> set (map fst (collections s)) \<and>
         (''telegram_cache'', ''audit_log'') \<notin> set (map fst (collections s))"
  using mongo_init_Inr[OF assms]
  by (simp add: map_of_eq_None_iff)

theorem mongo_init_collections_witness:
  "\<exists>s'. mongo_init (fresh_server ''test'' []) = Inr s' \<and>
        map fst (collections s') =
          [(''telegram_cache'', ''messages''), (''telegram_cache'', ''events''),
           (''telegram_cache'', ''audit_log'')]"
  using mongo_init_collections[OF mongo_init_fresh[of "''test''" "[]"]]
    mongo_init_fresh[of "''test''" "[]"]
  by (simp add: fresh_server_def)

text \<open>
  Claim C2. After the bootstrap has run, \<^verbatim>\<open>messages\<close> has a combined text index over
  exactly the fields \<^verbatim>\<open>text\<close> and \<^verbatim>\<open>caption\<close>, and it is the only index the
  bootstrap creates on any collection: the run adds to the index catalogue of the server
  the \<^verbatim>\<open>_id\<close> index every new collection is born with, for each of the three
  collections, and this one text index, and nothing else; leaving the default
  \<^verbatim>\<open>_id\<close> indexes aside, the text index is the only one added.
\<close>

theorem mongo_init_index_catalogue:
  assumes "mongo_init s = Inr s'"
  shows "index_catalogue s' =
           index_catalogue s @
             [((''telegram_cache'', ''messages''), id_index),
              ((''telegram_cache'', ''messages''),
                 \<lparr>key = [(''text'', Text), (''caption'', Text)], unique = False\<rparr>),
              ((''telegram_cache'', ''events''), id_index),
              ((''telegram_cache'', ''audit_log''), id_index)] \<and>
         filter (\<lambda>(ns, ix). ix \<noteq> id_index) (index_catalogue s') =
           filter (\<lambda>(ns, ix). ix \<noteq> id_index) (index_catalogue s) @
             [((''telegram_cache'', ''messages''),
                 \<lparr>key = [(''text'', Text), (''caption'', Text)], unique = False\<rparr>)]"
proof -
  have c: "index_catalogue s' =
           index_catalogue s @
             [((''telegram_cache'', ''messages''), id_index),
              ((''telegram_cache'', ''messages''),
                 \<lparr>key = [(''text'', Text), (''caption'', Text)], unique = False\<rparr>),
              ((''telegram_cache'', ''events''), id_index),
              ((''telegram_cache'', ''audit_log''), id_index)]"
    using mongo_init_Inr(1)[OF assms]
    by (simp add: index_catalogue_def new_collection_def text_index_def)
  show ?thesis
    by (simp add: c) (simp add: id_index_def)
qed

theorem mongo_init_index_catalogue_witness:
  "\<exists>s'. mongo_init (fresh_server ''test'' []) = Inr s' \<and>
        index_catalogue s' =
             [((''telegram_cache'', ''messages''), id_index),
              ((''telegram_cache'', ''messages''),
                 \<lparr>key = [(''text'', Text), (''caption'', Text)], unique = False\<rparr>),
              ((''telegram_cache'', ''events''), id_index),
              ((''telegram_cache'', ''audit_log''), id_index)]"
  using mongo_init_index_catalogue[OF mongo_init_fresh[of "''test''" "[]"]]
    mongo_init_fresh[of "''test''" "[]"]
  by (simp add: fresh_server_def index_catalogue_def)

text \<open>
  Claim C4. The principal the bootstrap creates is granted exactly the two roles
  \<^verbatim>\<open>readWrite\<close> and \<^verbatim>\<open>dbAdmin\<close>, both on the database \<^verbatim>\<open>telegram_cache\<close>: a run
  that completes adds one user, \<^verbatim>\<open>admin\<close>, whose list of roles is these two.
\<close>

theorem mongo_init_roles:
  assumes "mongo_init s = Inr s'"
  shows "map (\<lambda>(d, u). (user u, roles u)) (users s') =
           map (\<lambda>(d, u). (user u, roles u)) (users s) @
             [(''admin'', [\<lparr>role = ''readWrite'', db = ''telegram_cache''\<rparr>,
                           \<lparr>role = ''dbAdmin'', db = ''telegram_cache''\<rparr>])]"
  using mongo_init_Inr(1)[OF assms]
  by (simp add: admin_user_def)

theorem mongo_init_roles_witness:
  "\<exists>s'. mongo_init (fresh_server ''test'' []) = Inr s' \<and>
      map (\<lambda>(d, u). (user u, roles u)) (users s') =
             [(''admin'', [\<lparr>role = ''readWrite'', db = ''telegram_cache''\<rparr>,
                           \<lparr>role = ''dbAdmin'', db = ''telegram_cache''\<rparr>])]"
  using mongo_init_roles[OF mongo_init_fresh[of "''test''" "[]"]]
    mongo_init_fresh[of "''test''" "[]"]
  by (simp add: fresh_server_def)

text \<open>
  Claim C8. The credentials the bootstrap creates are the constants \<^verbatim>\<open>admin\<close> and
  \<^verbatim>\<open>password\<close>, whatever the input and the environment: replacing the environment of
  the process changes nothing of the credentials a run leaves on the server, and wherever
  a run ends it has added either nothing (the database the shell started in had a user
  \<^verbatim>\<open>admin\<close> already, and \<^verbatim>\<open>createUser\<close> threw) or the one pair \<^verbatim>\<open>admin\<close>,
  \<^verbatim>\<open>password\<close>. (The comment beside the password asks whoever deploys to put the
  password of the \<^verbatim>\<open>.env\<close> file there; the script itself reads no file and no
  variable.)
\<close>

theorem mongo_init_credentials_constant:
  "credentials (final (mongo_init (s\<lparr>environ := vars\<rparr>))) = credentials (final (mongo_init s)) \<and>
   credentials (final (mongo_init s)) =
     (if list_ex (\<lambda>(d, v). d = current_db s \<and> user v = ''admin'') (users s)
      then credentials s else credentials s @ [(''admin'', ''password'')])"
proof
  show "credentials (final (mongo_init (s\<lparr>environ := vars\<rparr>))) = credentials (final (mongo_init s))"
    by (cases "mongo_init s") (auto simp: mongo_init_environ final_def credentials_def)
  show "credentials (final (mongo_init s)) =
     (if list_ex (\<lambda>(d, v). d = current_db s \<and> user v = ''admin'') (users s)
      then credentials s else credentials s @ [(''admin'', ''password'')])"
    by (simp add: credentials_def final_mongo_init_users admin_user_def)
qed

theorem mongo_init_credentials_constant_witness:
  "credentials (final (mongo_init
       ((fresh_server ''test'' [])\<lparr>environ := [(''MONGO_PASSWORD'', ''s3cret'')]\<rparr>))) =
     [(''admin'', ''password'')] \<and>
   credentials (final (mongo_init (fresh_server ''test'' []))) = [(''admin'', ''password'')]"
  using mongo_init_credentials_constant
    [where s = "fresh_server ''test'' []" and vars = "[(''MONGO_PASSWORD'', ''s3cret'')]"]
  by (simp add: fresh_server_def credentials_def)

text \<open>
  Claim C9. User creation comes first, in the database the shell starts in, strictly
  before the switch to \<^verbatim>\<open>telegram_cache\<close>, while both roles of the principal target
  \<^verbatim>\<open>telegram_cache\<close>. Wherever a run ends: if it completed, or a statement after the
  first threw, the user is defined in the database the run started in and the shell has
  switched to \<^verbatim>\<open>telegram_cache\<close>; and if \<^verbatim>\<open>createUser\<close> threw, nothing at all
  had been done before it.
\<close>

theorem mongo_init_user_first:
  "(case mongo_init s of
      Inr s' \<Rightarrow>
        users s' = users s @ [(current_db s, admin_user)] \<and> current_db s' = ''telegram_cache''
    | Inl (e, t) \<Rightarrow>
        if e = UserAlreadyExists then t = s
        else users t = users s @ [(current_db s, admin_user)] \<and>
             current_db t = ''telegram_cache'') \<and>
   map db (roles admin_user) = [''telegram_cache'', ''telegram_cache'']"
proof (cases "mongo_init s")
  case (Inl p)
  obtain e t where p: "p = (e, t)" by (cases p)
  from mongo_init_Inl[OF Inl[unfolded p]] show ?thesis
    using Inl p by (auto simp: admin_user_def)
next
  case (Inr s')
  from mongo_init_Inr(1)[OF Inr] show ?thesis
    using Inr by (simp add: admin_user_def)
qed

theorem mongo_init_user_first_witness:
  "users (final (mongo_init (fresh_server ''test'' []))) = [(''test'', admin_user)] \<and>
   current_db (final (mongo_init (fresh_server ''test'' []))) = ''telegram_cache'' \<and>
   map db (roles admin_user) = [''telegram_cache'', ''telegram_cache'']"
  using mongo_init_user_first[of "fresh_server ''test'' []"] mongo_init_fresh[of "''test''" "[]"]
  by (simp add: fresh_server_def final_def)

text \<open>
  Claim C10. After the bootstrap, on a server where \<^verbatim>\<open>telegram_cache\<close> had no
  collection before, no collection of \<^verbatim>\<open>telegram_cache\<close> carries a validator or a
  unique index other than the default one on \<^verbatim>\<open>_id\<close>. In particular no unique index
  of \<^verbatim>\<open>messages\<close> covers the field \<^verbatim>\<open>id\<close>; and nothing makes \<^verbatim>\<open>audit_log\<close>
  append-only: it is a collection as \<^verbatim>\<open>createCollection\<close> with no options makes it,
  and the principal the run created holds \<^verbatim>\<open>update\<close> and \<^verbatim>\<open>remove\<close> on the
  database.
\<close>

theorem mongo_init_no_constraints:
  assumes "mongo_init s = Inr s'"
    and "\<not> list_ex (\<lambda>(ns, c). fst ns = ''telegram_cache'') (collections s)"
  shows "list_all (\<lambda>(ns, c). validator c = None \<and> filter unique (indexes c) = [id_index])
           (filter (\<lambda>(ns, c). fst ns = ''telegram_cache'') (collections s')) \<and>
         \<not> list_ex (\<lambda>ix. unique ix \<and> ''id'' \<in> set (map fst (key ix)))
             (indexes (get_collection s' (''telegram_cache'', ''messages''))) \<and>
         get_collection s' (''telegram_cache'', ''audit_log'') = new_collection \<and>
         list_all (\<lambda>(d, u). may u ''telegram_cache'' Update \<and> may u ''telegram_cache'' Remove)
           (drop (length (users s)) (users s'))"
proof -
  note r = mongo_init_Inr[OF assms(1)]
  have f: "filter (\<lambda>(ns, c). fst ns = ''telegram_cache'') (collections s) = []"
    using assms(2) by (auto simp: list_ex_iff filter_empty_conv)
  have 1: "list_all (\<lambda>(ns, c). validator c = None \<and> filter unique (indexes c) = [id_index])
           (filter (\<lambda>(ns, c). fst ns = ''telegram_cache'') (collections s'))"
    by (simp add: r(1) f) (simp add: new_collection_def id_index_def text_index_def)
  have m: "get_collection s' (''telegram_cache'', ''messages'') =
      new_collection\<lparr>indexes := [id_index, text_index]\<rparr>"
    using r(2) by (simp add: r(1) get_collection_def map_add_def)
  have 2: "\<not> list_ex (\<lambda>ix. unique ix \<and> ''id'' \<in> set (map fst (key ix)))
             (indexes (get_collection s' (''telegram_cache'', ''messages'')))"
    by (simp add: m id_index_def text_index_def)
  have 3: "get_collection s' (''telegram_cache'', ''audit_log'') = new_collection"
    using r(4) by (simp add: r(1) get_collection_def map_add_def)
  have 4: "list_all (\<lambda>(d, u). may u ''telegram_cache'' Update \<and> may u ''telegram_cache'' Remove)
           (drop (length (users s)) (users s'))"
    by (simp add: r(1) may_def admin_user_def role_actions_def)
  from 1 2 3 4 show ?thesis by blast
qed

theorem mongo_init_no_constraints_witness:
  "\<exists>s'. mongo_init (fresh_server ''test'' []) = Inr s' \<and>
     map (\<lambda>(ns, c). (ns, validator c = None, filter unique (indexes c))) (collections s') =
       [((''telegram_cache'', ''messages''), True, [id_index]),
        ((''telegram_cache'', ''events''), True, [id_index]),
        ((''telegram_cache'', ''audit_log''), True, [id_index])] \<and>
     get_collection s' (''telegram_cache'', ''audit_log'') = new_collection"
  using mongo_init_no_constraints[OF mongo_init_fresh[of "''test''" "[]"]]
    mongo_init_fresh[of "''test''" "[]"]
  by (simp add: fresh_server_def new_collection_def id_index_def text_index_def)

section \<open>Properties of the build file\<close>

lemma mkdir_p_Inr:
  assumes "mkdir_p ds img = Inr img'"
  shows "\<exists>dirs. img' = img\<lparr>files := dirs @ files img\<rparr> \<and>
           (\<forall>p. p \<notin> resolve (workdir img) ` set ds \<longrightarrow> map_of (dirs @ files img) p = map_of (files img) p)"
  using assms
proof (induction ds arbitrary: img)
  case Nil
  then show ?case by (intro exI[of _ "[]"]) simp
next
  case (Cons d ds)
  show ?case
  proof (cases "map_of (files img) (resolve (workdir img) d)")
    case None
    let ?i = "img\<lparr>files := (resolve (workdir img) d, Directory) # files img\<rparr>"
    from Cons.prems None have "mkdir_p ds ?i = Inr img'" by simp
    from Cons.IH[OF this] obtain dirs where
      1: "img' = ?i\<lparr>files := dirs @ files ?i\<rparr>" and
      2: "\<forall>p. p \<notin> resolve (workdir ?i) ` set ds \<longrightarrow> map_of (dirs @ files ?i) p = map_of (files ?i) p"
      by blast
    show ?thesis
      using 1 2 by (intro exI[of _ "dirs @ [(resolve (workdir img) d, Directory)]"]) auto
  next
    case (Some c)
    with Cons.prems have "mkdir_p ds img = Inr img'" by (simp split: if_splits)
    from Cons.IH[OF this] show ?thesis by auto
  qed
qed

lemma resolve_app: "resolve ''/app'' f = (if f = ''.'' then ''/app'' else ''/app/'' @ f)"
  by (simp add: resolve_def)

lemma map_of_copied:
  assumes "n \<noteq> ''.''"
  shows "map_of (map (\<lambda>(f, c). (resolve ''/app'' f, c)) ctx) (''/app/'' @ n) = map_of ctx n"
proof -
  define k where "k = ''/app/'' @ n"
  have e: "resolve ''/app'' f = k \<longleftrightarrow> f = n" for f
    using assms by (cases "f = ''.''") (simp_all add: resolve_app k_def)
  have "map_of (map (\<lambda>(f, c). (resolve ''/app'' f, c)) ctx) k = map_of ctx n"
  proof (induction ctx)
    case Nil
    then show ?case by simp
  next
    case (Cons a ctx)
    obtain f c where a: "a = (f, c)" by (cases a)
    show ?case
    proof (cases "f = n")
      case True
      then have "resolve ''/app'' f = k" by (simp add: e)
      with True show ?thesis by (simp add: a)
    next
      case False
      then have "resolve ''/app'' f \<noteq> k" by (simp add: e)
      with False Cons.IH show ?thesis by (simp add: a)
    qed
  qed
  then show ?thesis by (simp only: k_def)
qed

lemma build_Cons_Inr:
  "build (i # is) img = Inr r \<longleftrightarrow> (\<exists>img'. i img = Inr img' \<and> build is img' = Inr r)"
  by (simp split: sum.splits)

lemma dockerfile_Inr:
  assumes "dockerfile registry ctx = Inr img"
  shows "\<exists>b pkgs dirs.
     map_of registry ''python:3.11-slim'' = Some b \<and>
     map_of ctx ''requirements.txt'' = Some (PackageList pkgs) \<and>
     img = b\<lparr>workdir := ''/app'', apt_lists := False,
             apt_packages := apt_packages b @ [''gcc''],
             pip_packages := pip_packages b @ pkgs,
             files := dirs @ map (\<lambda>(f, c). (resolve ''/app'' f, c)) ctx @
                      (''/app/requirements.txt'', PackageList pkgs) # files b,
             env := (''PYTHONPATH'', ''/app'') # (''PYTHONUNBUFFERED'', ''1'') #
                    filter (\<lambda>(k, v). k \<noteq> ''PYTHONPATH'')
                      (filter (\<lambda>(k, v). k \<noteq> ''PYTHONUNBUFFERED'') (env b)),
             cmd := [''python'', ''main.py'']\<rparr> \<and>
     (\<forall>p. p \<noteq> ''/app/logs'' \<and> p \<noteq> ''/app/data'' \<longrightarrow>
          map_of (dirs @ map (\<lambda>(f, c). (resolve ''/app'' f, c)) ctx @
                      (''/app/requirements.txt'', PackageList pkgs) # files b) p =
          map_of (map (\<lambda>(f, c). (resolve ''/app'' f, c)) ctx @
                      (''/app/requirements.txt'', PackageList pkgs) # files b) p)"
proof -
  from assms obtain b where b: "map_of registry ''python:3.11-slim'' = Some b"
    and bd: "build
            [WORKDIR ''/app'',
             RUN (and_then apt_get_update
                    (and_then (apt_get_install [''gcc'']) rm_rf_apt_lists)),
             COPY ctx ''requirements.txt'' ''.'',
             RUN (pip_install_r ''requirements.txt''),
             COPY ctx ''.'' ''.'',
             RUN (mkdir_p [''logs'', ''data'']),
             ENV ''PYTHONUNBUFFERED'' ''1'',
             ENV ''PYTHONPATH'' ''/app'',
             CMD [''python'', ''main.py'']] b = Inr img"
    by (auto simp: dockerfile_def FROM_def split: option.splits sum.splits)
  from bd obtain i1 i2 i3 i4 i5 i6 i7 i8 where
    1: "WORKDIR ''/app'' b = Inr i1" and
    2: "RUN (and_then apt_get_update (and_then (apt_get_install [''gcc'']) rm_rf_apt_lists)) i1 = Inr i2" and
    3: "COPY ctx ''requirements.txt'' ''.'' i2 = Inr i3" and
    4: "RUN (pip_install_r ''requirements.txt'') i3 = Inr i4" and
    5: "COPY ctx ''.'' ''.'' i4 = Inr i5" and
    6: "RUN (mkdir_p [''logs'', ''data'']) i5 = Inr i6" and
    7: "ENV ''PYTHONUNBUFFERED'' ''1'' i6 = Inr i7" and
    8: "ENV ''PYTHONPATH'' ''/app'' i7 = Inr i8" and
    9: "CMD [''python'', ''main.py''] i8 = Inr img"
    unfolding build_Cons_Inr by auto
  from 1 have i1: "i1 = b\<lparr>workdir := ''/app''\<rparr>"
    by (simp add: WORKDIR_def)
  from 2 have i2: "i2 = i1\<lparr>apt_lists := False, apt_packages := apt_packages i1 @ [''gcc'']\<rparr>"
    by (auto simp: RUN_def and_then_def apt_get_update_def apt_get_install_def rm_rf_apt_lists_def)
  from 3 obtain c where c: "map_of ctx ''requirements.txt'' = Some c"
    and i3: "i3 = i2\<lparr>files := (''/app/requirements.txt'', c) # files i2\<rparr>"
    by (auto simp: COPY_def Let_def i2 i1 resolve_def split: option.splits)
  from 4 obtain pkgs where pk: "c = PackageList pkgs"
    and i4: "i4 = i3\<lparr>pip_packages := pip_packages i3 @ pkgs\<rparr>"
    by (auto simp: RUN_def pip_install_r_def Let_def i3 i2 i1 resolve_def split: content.splits)
  from 5 have i5: "i5 = i4\<lparr>files := map (\<lambda>(f, c). (resolve ''/app'' f, c)) ctx @ files i4\<rparr>"
    by (auto simp: COPY_def Let_def i4 i3 i2 i1 resolve_def)
  from 6 have "mkdir_p [''logs'', ''data''] i5 = Inr i6" by (simp add: RUN_def)
  from mkdir_p_Inr[OF this] obtain dirs where i6: "i6 = i5\<lparr>files := dirs @ files i5\<rparr>"
    and d: "\<forall>p. p \<notin> resolve (workdir i5) ` set [''logs'', ''data''] \<longrightarrow>
              map_of (dirs @ files i5) p = map_of (files i5) p"
    by blast
  have wd: "workdir i5 = ''/app''" by (simp add: i5 i4 i3 i2 i1)
  have f5: "files i5 = map (\<lambda>(f, c). (resolve ''/app'' f, c)) ctx @
                      (''/app/requirements.txt'', PackageList pkgs) # files b"
    by (simp add: i5 i4 i3 i2 i1 pk)
  from 7 have i7: "i7 = i6\<lparr>env := (''PYTHONUNBUFFERED'', ''1'') #
        filter (\<lambda>(k, v). k \<noteq> ''PYTHONUNBUFFERED'') (env i6)\<rparr>"
    by (simp add: ENV_def)
  from 8 have i8: "i8 = i7\<lparr>env := (''PYTHONPATH'', ''/app'') #
        filter (\<lambda>(k, v). k \<noteq> ''PYTHONPATH'') (env i7)\<rparr>"
    by (simp add: ENV_def)
  from 9 have i9: "img = i8\<lparr>cmd := [''python'', ''main.py'']\<rparr>"
    by (simp add: CMD_def)
  have img: "img = b\<lparr>workdir := ''/app'', apt_lists := False,
             apt_packages := apt_packages b @ [''gcc''],
             pip_packages := pip_packages b @ pkgs,
             files := dirs @ map (\<lambda>(f, c). (resolve ''/app'' f, c)) ctx @
                      (''/app/requirements.txt'', PackageList pkgs) # files b,
             env := (''PYTHONPATH'', ''/app'') # (''PYTHONUNBUFFERED'', ''1'') #
                    filter (\<lambda>(k, v). k \<noteq> ''PYTHONPATH'')
                      (filter (\<lambda>(k, v). k \<noteq> ''PYTHONUNBUFFERED'') (env b)),
             cmd := [''python'', ''main.py'']\<rparr>"
    by (simp add: i9 i8 i7 i6 f5) (simp add: i5 i4 i3 i2 i1)
  have look: "\<forall>p. p \<noteq> ''/app/logs'' \<and> p \<noteq> ''/app/data'' \<longrightarrow>
          map_of (dirs @ map (\<lambda>(f, c). (resolve ''/app'' f, c)) ctx @
                      (''/app/requirements.txt'', PackageList pkgs) # files b) p =
          map_of (map (\<lambda>(f, c). (resolve ''/app'' f, c)) ctx @
                      (''/app/requirements.txt'', PackageList pkgs) # files b) p"
    using d unfolding wd f5 by (simp add: resolve_def)
  from b c pk img look show ?thesis by blast
qed

lemma map_of_append_Some: "map_of xs k = Some v \<Longrightarrow> map_of (xs @ ys) k = Some v"
  by (induction xs) auto

text \<open>
  Claim C7. The build file installs a compiled dependency toolchain and a managed package
  set, sets an unbuffered-output and an import-path variable, and launches a single
  long-running process (\<^verbatim>\<open>main.py\<close>). As stated the claim fails: the build file
  names \<^verbatim>\<open>main.py\<close> but neither provides it nor decides how it behaves. With a
  build context that lacks \<^verbatim>\<open>main.py\<close> the build succeeds and the process of the
  container exits at once, with code 2; with a \<^verbatim>\<open>main.py\<close> that exits, so does the
  container (the second theorem below). What holds: whenever the build succeeds, on a
  base image without an entry point and a build context whose \<^verbatim>\<open>main.py\<close> is a
  program \<open>p\<close>, the image has \<^verbatim>\<open>gcc\<close> installed on top of the system packages of
  the base image, has the packages that the \<^verbatim>\<open>requirements.txt\<close> of the context
  lists installed by \<^verbatim>\<open>pip\<close>, sets \<^verbatim>\<open>PYTHONUNBUFFERED\<close> to 1 and
  \<^verbatim>\<open>PYTHONPATH\<close> to \<^verbatim>\<open>/app\<close>, and its container starts the one process
  \<^verbatim>\<open>python main.py\<close> in \<^verbatim>\<open>/app\<close>, where the file is the \<^verbatim>\<open>main.py\<close> of the
  context: the process behaves as \<open>p\<close>, so it is long-running exactly when that program
  is.
\<close>

theorem dockerfile_image:
  assumes "dockerfile registry ctx = Inr img"
    and "map_of registry ''python:3.11-slim'' = Some b"
    and "entrypoint b = []"
    and "map_of ctx ''main.py'' = Some (Program p)"
  shows "(\<exists>pkgs. map_of ctx ''requirements.txt'' = Some (PackageList pkgs) \<and>
                pip_packages img = pip_packages b @ pkgs) \<and>
         apt_packages img = apt_packages b @ [''gcc''] \<and>
         map_of (env img) ''PYTHONUNBUFFERED'' = Some ''1'' \<and>
         map_of (env img) ''PYTHONPATH'' = Some ''/app'' \<and>
         workdir img = ''/app'' \<and>
         container_argv img = [''python'', ''main.py''] \<and>
         map_of (files img) ''/app/main.py'' = Some (Program p) \<and>
         container_start img = Some p"
proof -
  from dockerfile_Inr[OF assms(1)] assms(2) obtain pkgs dirs where
    r: "map_of ctx ''requirements.txt'' = Some (PackageList pkgs)" and
    i: "img = b\<lparr>workdir := ''/app'', apt_lists := False,
             apt_packages := apt_packages b @ [''gcc''],
             pip_packages := pip_packages b @ pkgs,
             files := dirs @ map (\<lambda>(f, c). (resolve ''/app'' f, c)) ctx @
                      (''/app/requirements.txt'', PackageList pkgs) # files b,
             env := (''PYTHONPATH'', ''/app'') # (''PYTHONUNBUFFERED'', ''1'') #
                    filter (\<lambda>(k, v). k \<noteq> ''PYTHONPATH'')
                      (filter (\<lambda>(k, v). k \<noteq> ''PYTHONUNBUFFERED'') (env b)),
             cmd := [''python'', ''main.py'']\<rparr>" and
    l: "\<forall>p. p \<noteq> ''/app/logs'' \<and> p \<noteq> ''/app/data'' \<longrightarrow>
          map_of (dirs @ map (\<lambda>(f, c). (resolve ''/app'' f, c)) ctx @
                      (''/app/requirements.txt'', PackageList pkgs) # files b) p =
          map_of (map (\<lambda>(f, c). (resolve ''/app'' f, c)) ctx @
                      (''/app/requirements.txt'', PackageList pkgs) # files b) p"
    by auto
  have n: "''main.py'' \<noteq> ''.''" by simp
  have "map_of (map (\<lambda>(f, c). (resolve ''/app'' f, c)) ctx) (''/app/'' @ ''main.py'') =
          Some (Program p)"
    using assms(4) by (simp only: map_of_copied[OF n])
  then have c: "map_of (map (\<lambda>(f, c). (resolve ''/app'' f, c)) ctx) ''/app/main.py'' =
          Some (Program p)"
    by simp
  have m: "map_of (files img) ''/app/main.py'' = Some (Program p)"
  proof -
    have "map_of (files img) ''/app/main.py'' =
          map_of (map (\<lambda>(f, c). (resolve ''/app'' f, c)) ctx @
                      (''/app/requirements.txt'', PackageList pkgs) # files b) ''/app/main.py''"
      using l by (simp add: i)
    also have "\<dots> = Some (Program p)"
      by (rule map_of_append_Some) (rule c)
    finally show ?thesis .
  qed
  have a: "container_argv img = [''python'', ''main.py'']"
    by (simp add: container_argv_def i assms(3))
  have w: "workdir img = ''/app''" by (simp add: i)
  have s: "container_start img = Some p"
    by (simp add: container_start_def a w resolve_def m)
  from r i a m s show ?thesis by auto
qed

text \<open>On the configuration the official base image publishes (no entry point, the
  command \<^verbatim>\<open>python3\<close>): a context with \<^verbatim>\<open>requirements.txt\<close> alone, and one whose
  \<^verbatim>\<open>main.py\<close> exits with 0.\<close>

theorem dockerfile_without_main:
  "map_sum id container_start
     (dockerfile
        [(''python:3.11-slim'',
          \<lparr>workdir = ''/'', apt_lists = False, apt_packages = [], pip_packages = [],
           files = [], env = [(''LANG'', ''C.UTF-8'')], entrypoint = [],
           cmd = [''python3'']\<rparr>)]
        [(''requirements.txt'', PackageList [''pymongo''])]) = Inr (Some (Exits 2)) \<and>
   map_sum id container_start
     (dockerfile
        [(''python:3.11-slim'',
          \<lparr>workdir = ''/'', apt_lists = False, apt_packages = [], pip_packages = [],
           files = [], env = [(''LANG'', ''C.UTF-8'')], entrypoint = [],
           cmd = [''python3'']\<rparr>)]
        [(''requirements.txt'', PackageList [''pymongo'']),
         (''main.py'', Program (Exits 0))]) = Inr (Some (Exits 0))"
  by (simp add: dockerfile_def FROM_def WORKDIR_def RUN_def and_then_def apt_get_update_def
      apt_get_install_def rm_rf_apt_lists_def COPY_def pip_install_r_def ENV_def
      CMD_def resolve_def Let_def container_start_def container_argv_def)

text \<open>The same base image and a context whose \<^verbatim>\<open>main.py\<close> runs until it is
  stopped.\<close>

theorem dockerfile_image_witness:
  "\<exists>img. dockerfile
        [(''python:3.11-slim'',
          \<lparr>workdir = ''/'', apt_lists = False, apt_packages = [], pip_packages = [],
           files = [], env = [(''LANG'', ''C.UTF-8'')], entrypoint = [],
           cmd = [''python3'']\<rparr>)]
        [(''requirements.txt'', PackageList [''pymongo'']),
         (''main.py'', Program LongRunning)] = Inr img \<and>
      apt_packages img = [''gcc''] \<and> pip_packages img = [''pymongo''] \<and>
      env img = [(''PYTHONPATH'', ''/app''), (''PYTHONUNBUFFERED'', ''1''),
                 (''LANG'', ''C.UTF-8'')] \<and>
      container_argv img = [''python'', ''main.py''] \<and>
      container_start img = Some LongRunning"
proof -
  let ?b = "\<lparr>workdir = ''/'', apt_lists = False, apt_packages = [], pip_packages = [],
           files = [], env = [(''LANG'', ''C.UTF-8'')], entrypoint = [],
           cmd = [''python3'']\<rparr>"
  let ?reg = "[(''python:3.11-slim'', ?b)]"
  let ?ctx = "[(''requirements.txt'', PackageList [''pymongo'']),
         (''main.py'', Program LongRunning)]"
  obtain img where 1: "dockerfile ?reg ?ctx = Inr img"
    by (simp add: dockerfile_def FROM_def WORKDIR_def RUN_def and_then_def apt_get_update_def
      apt_get_install_def rm_rf_apt_lists_def COPY_def pip_install_r_def ENV_def
      CMD_def resolve_def Let_def)
  have 2: "map_of ?reg ''python:3.11-slim'' = Some ?b" by simp
  have 3: "entrypoint ?b = []" by simp
  have 4: "map_of ?ctx ''main.py'' = Some (Program LongRunning)" by simp
  have 5: "env img = [(''PYTHONPATH'', ''/app''), (''PYTHONUNBUFFERED'', ''1''),
                 (''LANG'', ''C.UTF-8'')]"
    using 1
    by (auto simp: dockerfile_def FROM_def WORKDIR_def RUN_def and_then_def apt_get_update_def
      apt_get_install_def rm_rf_apt_lists_def COPY_def pip_install_r_def ENV_def
      CMD_def resolve_def Let_def)
  from dockerfile_image[OF 1 2 3 4] 1 5 show ?thesis by auto
qed

section \<open>Properties of the ingestion core\<close>

subsection \<open>One call\<close>

lemma put_audit_log: "put w ov r s = Inr s1 \<Longrightarrow> audit_log s1 = audit_log s"
  by (cases r) (auto simp: put_def split: option.splits if_splits)

lemma find_map_replace:
  "find (\<lambda>x. f x = k) xs = Some y \<Longrightarrow> f m = k \<Longrightarrow>
   find (\<lambda>x. f x = k) (map (\<lambda>x. if f x = k then m else x) xs) = Some m"
  by (induction xs) (auto split: if_splits)

lemma find_append_new:
  "find P xs = None \<Longrightarrow> P m \<Longrightarrow> find P (xs @ [m]) = Some m"
  by (induction xs) (auto split: if_splits)

lemma find_SomeD: "find P xs = Some x \<Longrightarrow> x \<in> set xs \<and> P x"
  by (induction xs) (auto split: if_splits)

lemma put_current: "put w ov r s = Inr s1 \<Longrightarrow> current s1 r = Some r"
  by (cases r)
     (auto simp: put_def current_def find_map_replace find_append_new
           split: option.splits if_splits)

lemma put_messages_cases:
  assumes "put w ov r s = Inr s1" and "m \<in> set (messages s1)"
  shows "m \<in> set (messages s) \<or> r = Message m"
  using assms
  by (cases r) (auto simp: put_def split: option.splits if_splits)

lemma put_events_cases:
  assumes "put w ov r s = Inr s1" and "v \<in> set (events s1)"
  shows "v \<in> set (events s) \<or> r = Event v"
  using assms
  by (cases r) (auto simp: put_def split: option.splits if_splits)

text \<open>The two ways a mutation can end: accepted, with the write and the one entry both
  made, or not accepted, with the store as it was.\<close>

lemma mutate_cases:
  assumes "mutate w ov r s = (res, s')"
  shows "(res = Accepted \<and> current s r \<noteq> Some r \<and>
          (\<exists>s1. put w ov r s = Inr s1 \<and>
             s' = s1\<lparr>audit_log := audit_log s @
                  [\<lparr>entry_id = length (audit_log s), operation = operation_of s r,
                    actor = caller w, target_collection = collection_of r,
                    target_id = ident_of r, before = current s r, after = Some r,
                    entry_timestamp = at_time w\<rparr>]\<rparr>)) \<or>
         (res \<noteq> Accepted \<and> s' = s)"
  using assms
  by (auto simp: mutate_def record_audit_def put_audit_log split: if_splits sum.splits)

lemma submit_cases:
  assumes "submit w raw s = (res, s')"
  shows "(res = Accepted \<and>
          (\<exists>r. normalize_raw raw = Inr r \<and> ident_of r \<notin> set (stored_ids s) \<and>
                mutate w False r s = (Accepted, s'))) \<or>
         (res \<noteq> Accepted \<and> s' = s)"
proof (cases "normalize_raw raw")
  case (Inl e)
  with assms show ?thesis by (auto simp: submit_def)
next
  case (Inr r)
  show ?thesis
  proof (cases "ident_of r \<in> set (stored_ids s)")
    case True
    with Inr assms show ?thesis by (auto simp: submit_def gate_def)
  next
    case False
    with Inr assms have m: "mutate w False r s = (res, s')"
      by (simp add: submit_def gate_def)
    from mutate_cases[OF m] Inr False m show ?thesis by auto
  qed
qed

lemma serve_cases:
  assumes "serve c s = (res, s')"
  shows "(res = Accepted \<and>
          (\<exists>r ov. record_of c = Some r \<and> mutate (fst c) ov r s = (Accepted, s'))) \<or>
         (res \<noteq> Accepted \<and> s' = s)"
proof (cases "snd c")
  case (Submit raw)
  with assms have "submit (fst c) raw s = (res, s')"
    by (simp add: serve_def)
  from submit_cases[OF this] Submit show ?thesis
    by (auto simp: record_of_def)
next
  case (Put ov r)
  with assms have m: "mutate (fst c) ov r s = (res, s')"
    by (simp add: serve_def)
  from mutate_cases[OF m] m Put show ?thesis
    by (auto simp: record_of_def)
qed

lemma normalize_raw_ident: "normalize_raw raw = Inr r \<Longrightarrow> raw_id raw = Some (ident_of r)"
  by (auto simp: normalize_raw_def ident_of_def split: option.splits if_splits prod.splits)

subsection \<open>Runs\<close>

lemma mutate_traced:
  assumes m: "mutate w ov r s = (res, s')" and t: "traced s"
  shows "traced s'"
proof -
  from mutate_cases[OF m] show ?thesis
  proof
    assume "res \<noteq> Accepted \<and> s' = s"
    with t show ?thesis by simp
  next
    assume "res = Accepted \<and> current s r \<noteq> Some r \<and>
          (\<exists>s1. put w ov r s = Inr s1 \<and>
             s' = s1\<lparr>audit_log := audit_log s @
                  [\<lparr>entry_id = length (audit_log s), operation = operation_of s r,
                    actor = caller w, target_collection = collection_of r,
                    target_id = ident_of r, before = current s r, after = Some r,
                    entry_timestamp = at_time w\<rparr>]\<rparr>)"
    then obtain s1 where p: "put w ov r s = Inr s1"
      and s': "s' = s1\<lparr>audit_log := audit_log s @
                  [\<lparr>entry_id = length (audit_log s), operation = operation_of s r,
                    actor = caller w, target_collection = collection_of r,
                    target_id = ident_of r, before = current s r, after = Some r,
                    entry_timestamp = at_time w\<rparr>]\<rparr>"
      by blast
    have 1: "list_ex (\<lambda>e. after e = Some (Message x) \<and> target_id e = msg_id x \<and>
                               target_collection e = ''messages'') (audit_log s')"
      if "x \<in> set (messages s')" for x
    proof -
      from that s' have "x \<in> set (messages s1)" by simp
      from put_messages_cases[OF p this] show ?thesis
      proof
        assume "x \<in> set (messages s)"
        with t show ?thesis by (auto simp: traced_def list_all_iff list_ex_iff s')
      next
        assume "r = Message x"
        then show ?thesis by (simp add: s' collection_of_def ident_of_def)
      qed
    qed
    have 2: "list_ex (\<lambda>e. after e = Some (Event x) \<and> target_id e = event_id x \<and>
                               target_collection e = ''events'') (audit_log s')"
      if "x \<in> set (events s')" for x
    proof -
      from that s' have "x \<in> set (events s1)" by simp
      from put_events_cases[OF p this] show ?thesis
      proof
        assume "x \<in> set (events s)"
        with t show ?thesis by (auto simp: traced_def list_all_iff list_ex_iff s')
      next
        assume "r = Event x"
        then show ?thesis by (simp add: s' collection_of_def ident_of_def)
      qed
    qed
    from 1 2 show ?thesis by (simp add: traced_def list_all_iff)
  qed
qed

lemma serve_traced:
  assumes "serve c s = (res, s')" and "traced s"
  shows "traced s'"
proof -
  from serve_cases[OF assms(1)] show ?thesis
  proof
    assume "res \<noteq> Accepted \<and> s' = s"
    with assms(2) show ?thesis by simp
  next
    assume "res = Accepted \<and>
          (\<exists>r ov. record_of c = Some r \<and> mutate (fst c) ov r s = (Accepted, s'))"
    then obtain r ov where "mutate (fst c) ov r s = (Accepted, s')"
      by blast
    from mutate_traced[OF this assms(2)] show ?thesis .
  qed
qed

lemma serve_audit_length:
  assumes "serve c s = (res, s')"
  shows "length (audit_log s') = length (audit_log s) + (if res = Accepted then 1 else 0)"
proof -
  from serve_cases[OF assms] show ?thesis
  proof
    assume "res \<noteq> Accepted \<and> s' = s"
    then show ?thesis by simp
  next
    assume a: "res = Accepted \<and>
          (\<exists>r ov. record_of c = Some r \<and> mutate (fst c) ov r s = (Accepted, s'))"
    then obtain r ov where "mutate (fst c) ov r s = (Accepted, s')"
      by blast
    from mutate_cases[OF this] a show ?thesis by auto
  qed
qed

lemma serve_all_invariant:
  assumes "serve_all cs s0 = (rs, s)" and "traced s0"
  shows "traced s \<and>
         length (audit_log s) = length (audit_log s0) + length (filter (\<lambda>r. r = Accepted) rs)"
  using assms
proof (induction cs arbitrary: s0 rs s)
  case Nil
  then show ?case by simp
next
  case (Cons c cs)
  obtain r s1 where 1: "serve c s0 = (r, s1)" by (cases "serve c s0")
  obtain rs' s2 where 2: "serve_all cs s1 = (rs', s2)" by (cases "serve_all cs s1")
  from Cons.prems(1) 1 2 have e: "rs = r # rs'" "s = s2" by simp_all
  from serve_traced[OF 1 Cons.prems(2)] have t: "traced s1" .
  from Cons.IH[OF 2 t] serve_audit_length[OF 1] e show ?case by auto
qed

lemma traced_empty: "traced empty_store"
  by (simp add: traced_def empty_store_def)

subsection \<open>One record for an identifier\<close>

lemma distinct_count_list: "distinct xs \<Longrightarrow> count_list xs x \<le> 1"
  by (induction xs) auto

lemma find_None_notin: "find (\<lambda>x. f x = k) xs = None \<Longrightarrow> k \<notin> f ` set xs"
  by (induction xs) (auto split: if_splits)

lemma map_replace_ids: "f m = k \<Longrightarrow> map f (map (\<lambda>x. if f x = k then m else x) xs) = map f xs"
  by (induction xs) auto

lemma map_replace_ids_comp: "f m = k \<Longrightarrow> map (f \<circ> (\<lambda>x. if f x = k then m else x)) xs = map f xs"
  by (induction xs) auto

lemma put_distinct:
  assumes "put w ov r s = Inr s1"
    and "distinct (map msg_id (messages s))" and "distinct (map event_id (events s))"
  shows "distinct (map msg_id (messages s1)) \<and> distinct (map event_id (events s1))"
proof (cases r)
  case (Message m)
  show ?thesis
  proof (cases "find (\<lambda>x. msg_id x = msg_id m) (messages s)")
    case None
    from find_None_notin[OF None] assms Message None show ?thesis
      by (auto simp: put_def split: if_splits)
  next
    case (Some old)
    with assms Message show ?thesis
      by (auto simp: put_def map_replace_ids_comp split: if_splits)
  qed
next
  case (Event e)
  show ?thesis
  proof (cases "find (\<lambda>x. event_id x = event_id e) (events s)")
    case None
    from find_None_notin[OF None] assms Event None show ?thesis
      by (auto simp: put_def split: if_splits)
  next
    case (Some old)
    with assms Event show ?thesis
      by (auto simp: put_def split: if_splits)
  qed
qed

lemma put_stored_ids_mono:
  assumes "put w ov r s = Inr s1"
  shows "set (stored_ids s) \<subseteq> set (stored_ids s1)"
proof (cases r)
  case (Message m)
  show ?thesis
  proof (cases "find (\<lambda>x. msg_id x = msg_id m) (messages s)")
    case None
    with assms Message show ?thesis
      by (auto simp: put_def stored_ids_def split: if_splits)
  next
    case (Some old)
    have "map msg_id (map (\<lambda>x. if msg_id x = msg_id m then m else x) (messages s)) =
          map msg_id (messages s)"
      by (rule map_replace_ids) simp
    then have "msg_id ` set (map (\<lambda>x. if msg_id x = msg_id m then m else x) (messages s)) =
          msg_id ` set (messages s)"
      by (metis set_map)
    with assms Message Some show ?thesis
      by (auto simp: put_def stored_ids_def split: if_splits)
  qed
next
  case (Event e)
  with assms show ?thesis
    by (auto simp: put_def stored_ids_def split: option.splits if_splits)
qed

lemma current_stored_ids: "current s r = Some r' \<Longrightarrow> ident_of r \<in> set (stored_ids s)"
proof (cases r)
  case (Message m)
  assume "current s r = Some r'"
  with Message obtain z where "z \<in> set (messages s)" "msg_id z = msg_id m"
    by (auto simp: current_def dest!: find_SomeD)
  then have "msg_id m \<in> msg_id ` set (messages s)"
    by (metis image_eqI)
  with Message show ?thesis by (simp add: stored_ids_def ident_of_def)
next
  case (Event e)
  assume "current s r = Some r'"
  with Event obtain z where "z \<in> set (events s)" "event_id z = event_id e"
    by (auto simp: current_def dest!: find_SomeD)
  then have "event_id e \<in> event_id ` set (events s)"
    by (metis image_eqI)
  with Event show ?thesis by (simp add: stored_ids_def ident_of_def)
qed

lemma mutate_keeps:
  assumes m: "mutate w ov r s = (res, s')"
    and d: "distinct (map msg_id (messages s))" "distinct (map event_id (events s))"
  shows "distinct (map msg_id (messages s')) \<and> distinct (map event_id (events s')) \<and>
         set (stored_ids s) \<subseteq> set (stored_ids s') \<and>
         (res = Accepted \<longrightarrow> ident_of r \<in> set (stored_ids s'))"
proof -
  from mutate_cases[OF m] show ?thesis
  proof
    assume "res \<noteq> Accepted \<and> s' = s"
    with d show ?thesis by simp
  next
    assume "res = Accepted \<and> current s r \<noteq> Some r \<and>
          (\<exists>s1. put w ov r s = Inr s1 \<and>
             s' = s1\<lparr>audit_log := audit_log s @
                  [\<lparr>entry_id = length (audit_log s), operation = operation_of s r,
                    actor = caller w, target_collection = collection_of r,
                    target_id = ident_of r, before = current s r, after = Some r,
                    entry_timestamp = at_time w\<rparr>]\<rparr>)"
    then obtain s1 where p: "put w ov r s = Inr s1"
      and s': "messages s' = messages s1" "events s' = events s1"
      by auto
    from put_current[OF p] have "ident_of r \<in> set (stored_ids s1)"
      by (rule current_stored_ids)
    with put_distinct[OF p d] put_stored_ids_mono[OF p] s' show ?thesis
      by (simp add: stored_ids_def)
  qed
qed

lemma serve_keeps:
  assumes v: "serve c s = (res, s')"
    and d: "distinct (map msg_id (messages s))" "distinct (map event_id (events s))"
  shows "distinct (map msg_id (messages s')) \<and> distinct (map event_id (events s')) \<and>
         set (stored_ids s) \<subseteq> set (stored_ids s') \<and>
         (res = Accepted \<and> submits i c \<longrightarrow>
            i \<notin> set (stored_ids s) \<and> i \<in> set (stored_ids s'))"
proof (cases "snd c")
  case (Submit raw)
  with v have sb: "submit (fst c) raw s = (res, s')" by (simp add: serve_def)
  from submit_cases[OF sb] show ?thesis
  proof
    assume "res \<noteq> Accepted \<and> s' = s"
    with d show ?thesis by simp
  next
    assume "res = Accepted \<and>
          (\<exists>r. normalize_raw raw = Inr r \<and> ident_of r \<notin> set (stored_ids s) \<and>
                mutate (fst c) False r s = (Accepted, s'))"
    then obtain r where n: "normalize_raw raw = Inr r"
      and f: "ident_of r \<notin> set (stored_ids s)"
      and m: "mutate (fst c) False r s = (Accepted, s')"
      by blast
    from normalize_raw_ident[OF n] Submit have "submits i c \<longrightarrow> i = ident_of r"
      by (simp add: submits_def)
    with mutate_keeps[OF m d] f show ?thesis by auto
  qed
next
  case (Put ov r)
  with v have m: "mutate (fst c) ov r s = (res, s')" by (simp add: serve_def)
  from mutate_keeps[OF m d] Put show ?thesis by (simp add: submits_def)
qed

lemma serve_all_keeps:
  assumes "serve_all cs s0 = (rs, s)"
    and "distinct (map msg_id (messages s0))" and "distinct (map event_id (events s0))"
  shows "distinct (map msg_id (messages s)) \<and> distinct (map event_id (events s)) \<and>
         set (stored_ids s0) \<subseteq> set (stored_ids s) \<and>
         accepted_submissions i cs rs \<le> (if i \<in> set (stored_ids s0) then 0 else 1)"
  using assms
proof (induction cs arbitrary: s0 rs s)
  case Nil
  then show ?case by (simp add: accepted_submissions_def)
next
  case (Cons c cs)
  obtain r s1 where 1: "serve c s0 = (r, s1)" by (cases "serve c s0")
  obtain rs' s2 where 2: "serve_all cs s1 = (rs', s2)" by (cases "serve_all cs s1")
  from Cons.prems(1) 1 2 have e: "rs = r # rs'" "s = s2" by simp_all
  note k = serve_keeps[OF 1 Cons.prems(2,3), of i]
  from k have d1: "distinct (map msg_id (messages s1))" "distinct (map event_id (events s1))"
    by simp_all
  note ih = Cons.IH[OF 2 d1]
  have a: "accepted_submissions i (c # cs) (r # rs') =
      (if submits i c \<and> r = Accepted then 1 else 0) + accepted_submissions i cs rs'"
    by (simp add: accepted_submissions_def)
  show ?case
  proof (cases "submits i c \<and> r = Accepted")
    case True
    with k have "i \<notin> set (stored_ids s0)" "i \<in> set (stored_ids s1)" by simp_all
    with ih k True show ?thesis unfolding e a by auto
  next
    case False
    from k have "i \<in> set (stored_ids s0) \<Longrightarrow> i \<in> set (stored_ids s1)" by auto
    with ih k False show ?thesis unfolding e a by (auto split: if_splits)
  qed
qed

subsection \<open>The claims about the core\<close>

text \<open>
  Claim C1. For concurrent or repeated submissions that carry the same source identifier
  at most one Message record is stored, and the guarantee rests on the store, whose
  insert-if-absent is one atomic step, not on a check made before the write. The
  handlers of the core are stateless and share nothing but the store, and every
  operation on the store is one atomic step, so a concurrent execution of any number of
  ingestion paths is a sequence of calls in some order; the theorem is about every such
  sequence. The calls are submissions, in which the gate's answer and the insert are the
  same step, and writes that consult no gate at all (\<^verbatim>\<open>put\<close>), as a handler makes
  whose check is stale. In every store so reached, no two messages (and no two events)
  have the same identifier; and of all the submissions that carried one identifier, at
  most one was accepted.
\<close>

theorem at_most_one_record_per_identifier:
  "(case serve_all cs empty_store of
      (rs, s) \<Rightarrow>
        count_list (map msg_id (messages s)) i \<le> 1 \<and>
        count_list (map event_id (events s)) i \<le> 1 \<and>
        accepted_submissions i cs rs \<le> 1)"
proof -
  obtain rs s where 1: "serve_all cs empty_store = (rs, s)"
    by (cases "serve_all cs empty_store")
  have "distinct (map msg_id (messages empty_store))" "distinct (map event_id (events empty_store))"
    by (simp_all add: empty_store_def)
  from serve_all_keeps[OF 1 this, of i] show ?thesis
    by (simp add: 1 distinct_count_list del: One_nat_def split: if_splits)
qed

text \<open>Two ingestion paths submit \<^verbatim>\<open>e1\<close> at the same time, and a third writes a
  record of the same identifier past the gate: one submission is accepted, the other
  rejected, and the store holds one message \<^verbatim>\<open>e1\<close>.\<close>

theorem at_most_one_record_per_identifier_witness:
  "(case serve_all
      [(\<lparr>index_up = True, store_up = True, caller = ''path-a'', at_time = 1\<rparr>,
        Submit \<lparr>raw_id = Some ''e1'', raw_kind = None, raw_message_id = None,
                raw_chat_id = 42, raw_sender_id = 7, raw_text = Some ''hello world'',
                raw_caption = None, raw_attachments = [], raw_payload = [],
                raw_timestamp = Some 1000\<rparr>),
       (\<lparr>index_up = True, store_up = True, caller = ''path-b'', at_time = 1\<rparr>,
        Submit \<lparr>raw_id = Some ''e1'', raw_kind = None, raw_message_id = None,
                raw_chat_id = 42, raw_sender_id = 7, raw_text = Some ''hello world'',
                raw_caption = None, raw_attachments = [], raw_payload = [],
                raw_timestamp = Some 1000\<rparr>),
       (\<lparr>index_up = True, store_up = True, caller = ''path-c'', at_time = 2\<rparr>,
        Put False (Message \<lparr>msg_id = ''e1'', chat_id = 42, sender_id = 7,
                body = Some ''hello again'', caption = None, attachments = [],
                timestamp = 1000, edit_count = 1, tombstoned = False\<rparr>))]
      empty_store of
      (rs, s) \<Rightarrow>
        rs = [Accepted, Rejected ''e1'', Accepted] \<and>
        map msg_id (messages s) = [''e1''] \<and>
        count_list (map msg_id (messages s)) ''e1'' = 1)"
  using at_most_one_record_per_identifier
    [where i = "''e1''" and
       cs = "[(\<lparr>index_up = True, store_up = True, caller = ''path-a'', at_time = 1\<rparr>,
        Submit \<lparr>raw_id = Some ''e1'', raw_kind = None, raw_message_id = None,
                raw_chat_id = 42, raw_sender_id = 7, raw_text = Some ''hello world'',
                raw_caption = None, raw_attachments = [], raw_payload = [],
                raw_timestamp = Some 1000\<rparr>),
       (\<lparr>index_up = True, store_up = True, caller = ''path-b'', at_time = 1\<rparr>,
        Submit \<lparr>raw_id = Some ''e1'', raw_kind = None, raw_message_id = None,
                raw_chat_id = 42, raw_sender_id = 7, raw_text = Some ''hello world'',
                raw_caption = None, raw_attachments = [], raw_payload = [],
                raw_timestamp = Some 1000\<rparr>),
       (\<lparr>index_up = True, store_up = True, caller = ''path-c'', at_time = 2\<rparr>,
        Put False (Message \<lparr>msg_id = ''e1'', chat_id = 42, sender_id = 7,
                body = Some ''hello again'', caption = None, attachments = [],
                timestamp = 1000, edit_count = 1, tombstoned = False\<rparr>))]"]
  by (simp add: serve_def submit_def normalize_raw_def gate_def stored_ids_def empty_store_def
        mutate_def current_def put_def record_audit_def ident_of_def operation_of_def
        collection_of_def)



text \<open>
  Claim C5. For every identifier that is already stored, submitting an event with that
  identifier again is a no-op: the store and the audit log are exactly as they were, and
  the submission is rejected with the existing identifier (or fails in the Normalizer,
  when its timestamp is missing).
\<close>

theorem resubmission_is_noop:
  assumes "i \<in> set (stored_ids s)" and "raw_id raw = Some i"
  shows "snd (submit w raw s) = s \<and>
         (fst (submit w raw s) = Rejected i \<or>
          fst (submit w raw s) = Failed MalformedEventError)"
proof (cases "normalize_raw raw")
  case (Inl e)
  then have "e = MalformedEventError"
    by (cases e) (auto simp: normalize_raw_def split: option.splits if_splits prod.splits)
  with Inl show ?thesis by (simp add: submit_def)
next
  case (Inr r)
  from normalize_raw_ident[OF Inr] assms have "ident_of r \<in> set (stored_ids s)" "ident_of r = i"
    by simp_all
  with Inr show ?thesis by (simp add: submit_def gate_def)
qed

text \<open>The scenario of the specification: \<^verbatim>\<open>e1\<close> is submitted and accepted, and
  submitted again; the store then holds one message and one audit entry.\<close>

theorem resubmission_is_noop_witness:
  "(case submit \<lparr>index_up = True, store_up = True, caller = ''bot'', at_time = 1\<rparr>
           \<lparr>raw_id = Some ''e1'', raw_kind = None, raw_message_id = None, raw_chat_id = 42,
            raw_sender_id = 7, raw_text = Some ''hello world'', raw_caption = None,
            raw_attachments = [], raw_payload = [], raw_timestamp = Some 1000\<rparr> empty_store of
      (r, s) \<Rightarrow>
        r = Accepted \<and> ''e1'' \<in> set (stored_ids s) \<and>
        submit \<lparr>index_up = True, store_up = True, caller = ''bot'', at_time = 2\<rparr>
           \<lparr>raw_id = Some ''e1'', raw_kind = None, raw_message_id = None, raw_chat_id = 42,
            raw_sender_id = 7, raw_text = Some ''hello again'', raw_caption = None,
            raw_attachments = [], raw_payload = [], raw_timestamp = Some 2000\<rparr> s =
          (Rejected ''e1'', s) \<and>
        map msg_id (messages s) = [''e1''] \<and> length (audit_log s) = 1)"
proof -
  let ?w1 = "\<lparr>index_up = True, store_up = True, caller = ''bot'', at_time = 1\<rparr>"
  let ?w2 = "\<lparr>index_up = True, store_up = True, caller = ''bot'', at_time = 2\<rparr>"
  let ?raw = "\<lparr>raw_id = Some ''e1'', raw_kind = None, raw_message_id = None, raw_chat_id = 42,
            raw_sender_id = 7, raw_text = Some ''hello world'', raw_caption = None,
            raw_attachments = [], raw_payload = [], raw_timestamp = Some 1000\<rparr>"
  let ?again = "\<lparr>raw_id = Some ''e1'', raw_kind = None, raw_message_id = None, raw_chat_id = 42,
            raw_sender_id = 7, raw_text = Some ''hello again'', raw_caption = None,
            raw_attachments = [], raw_payload = [], raw_timestamp = Some 2000\<rparr>"
  obtain r s where 1: "submit ?w1 ?raw empty_store = (r, s)"
    by (cases "submit ?w1 ?raw empty_store")
  then have 2: "r = Accepted" "map msg_id (messages s) = [''e1'']" "length (audit_log s) = 1"
    by (auto simp: submit_def normalize_raw_def gate_def stored_ids_def empty_store_def
        mutate_def current_def put_def record_audit_def ident_of_def)
  then have 3: "''e1'' \<in> set (stored_ids s)"
    by (simp add: stored_ids_def)
  have 4: "raw_id ?again = Some ''e1''" by simp
  have 5: "fst (submit ?w2 ?again s) \<noteq> Failed MalformedEventError"
    using 3 by (simp add: submit_def normalize_raw_def gate_def ident_of_def)
  from resubmission_is_noop[OF 3 4, of ?w2] 5
  have "submit ?w2 ?again s = (Rejected ''e1'', s)"
    by (cases "submit ?w2 ?again s") auto
  with 1 2 3 show ?thesis by simp
qed

text \<open>
  Claim C6. Every accepted mutating operation on a Message or an Event produces exactly
  one AuditLogEntry, and the mutation and its audit write take effect together or not at
  all. In every store \<open>s\<close> reached from the empty store by any calls, the audit log has
  as many entries as calls were accepted and every stored record is the \<open>after\<close>
  snapshot of an entry for it; and a further call either is accepted, and then the record
  is stored and the audit log has grown by exactly one entry, which names the actor, the
  target, and the record before and after, or it leaves the store and the audit log as
  they were.
\<close>

theorem mutation_and_audit_atomic:
  "(case serve_all cs empty_store of
      (rs, s) \<Rightarrow>
        length (audit_log s) = length (filter (\<lambda>r. r = Accepted) rs) \<and>
        traced s \<and>
        (case serve c s of
           (r, s') \<Rightarrow>
             if r = Accepted
             then (case record_of c of
                     None \<Rightarrow> False
                   | Some x \<Rightarrow>
                       current s x \<noteq> Some x \<and> current s' x = Some x \<and>
                       length (audit_log s') = Suc (length (audit_log s)) \<and>
                       butlast (audit_log s') = audit_log s \<and>
                       after (last (audit_log s')) = Some x \<and>
                       before (last (audit_log s')) = current s x \<and>
                       target_id (last (audit_log s')) = ident_of x \<and>
                       target_collection (last (audit_log s')) = collection_of x \<and>
                       actor (last (audit_log s')) = caller (fst c))
             else s' = s))"
proof -
  obtain rs s where 1: "serve_all cs empty_store = (rs, s)" by (cases "serve_all cs empty_store")
  obtain r s' where 2: "serve c s = (r, s')" by (cases "serve c s")
  from serve_all_invariant[OF 1 traced_empty]
  have inv: "length (audit_log s) = length (filter (\<lambda>r. r = Accepted) rs)" "traced s"
    by (simp_all add: empty_store_def)
  have step: "if r = Accepted
             then (case record_of c of
                     None \<Rightarrow> False
                   | Some x \<Rightarrow>
                       current s x \<noteq> Some x \<and> current s' x = Some x \<and>
                       length (audit_log s') = Suc (length (audit_log s)) \<and>
                       butlast (audit_log s') = audit_log s \<and>
                       after (last (audit_log s')) = Some x \<and>
                       before (last (audit_log s')) = current s x \<and>
                       target_id (last (audit_log s')) = ident_of x \<and>
                       target_collection (last (audit_log s')) = collection_of x \<and>
                       actor (last (audit_log s')) = caller (fst c))
             else s' = s"
  proof (cases "r = Accepted")
    case False
    with serve_cases[OF 2] show ?thesis by auto
  next
    case True
    with serve_cases[OF 2] obtain x ov where
      x: "record_of c = Some x" and m: "mutate (fst c) ov x s = (Accepted, s')"
      by auto
    from mutate_cases[OF m] obtain s1 where
      n: "current s x \<noteq> Some x" and p: "put (fst c) ov x s = Inr s1" and
      s': "s' = s1\<lparr>audit_log := audit_log s @
                  [\<lparr>entry_id = length (audit_log s), operation = operation_of s x,
                    actor = caller (fst c), target_collection = collection_of x,
                    target_id = ident_of x, before = current s x, after = Some x,
                    entry_timestamp = at_time (fst c)\<rparr>]\<rparr>"
      by auto
    from put_current[OF p] have "current s' x = Some x"
      by (cases x) (simp_all add: s' current_def)
    with True x n show ?thesis by (simp add: s')
  qed
  from inv step show ?thesis by (simp add: 1 2)
qed

text \<open>A run in which the second submission of \<^verbatim>\<open>e1\<close> is rejected and a delete is
  rolled back because the audit entry cannot be written; the delete is then made with the
  store up, and both the tombstone and its audit entry are there.\<close>

theorem mutation_and_audit_atomic_witness:
  "(case serve_all
      [(\<lparr>index_up = True, store_up = True, caller = ''bot'', at_time = 1\<rparr>,
        Submit \<lparr>raw_id = Some ''e1'', raw_kind = None, raw_message_id = None,
                raw_chat_id = 42, raw_sender_id = 7, raw_text = Some ''hello world'',
                raw_caption = None, raw_attachments = [], raw_payload = [],
                raw_timestamp = Some 1000\<rparr>),
       (\<lparr>index_up = True, store_up = True, caller = ''bot'', at_time = 2\<rparr>,
        Submit \<lparr>raw_id = Some ''e1'', raw_kind = None, raw_message_id = None,
                raw_chat_id = 42, raw_sender_id = 7, raw_text = Some ''hello world'',
                raw_caption = None, raw_attachments = [], raw_payload = [],
                raw_timestamp = Some 1000\<rparr>),
       (\<lparr>index_up = True, store_up = False, caller = ''mod'', at_time = 3\<rparr>,
        Put False (Message \<lparr>msg_id = ''e1'', chat_id = 42, sender_id = 7,
                body = Some ''hello world'', caption = None, attachments = [],
                timestamp = 1000, edit_count = 0, tombstoned = True\<rparr>))]
      empty_store of
      (rs, s) \<Rightarrow>
        rs = [Accepted, Rejected ''e1'', Failed AuditWriteError] \<and>
        map tombstoned (messages s) = [False] \<and>
        length (audit_log s) = 1 \<and>
        (case serve
           (\<lparr>index_up = True, store_up = True, caller = ''mod'', at_time = 4\<rparr>,
            Put False (Message \<lparr>msg_id = ''e1'', chat_id = 42, sender_id = 7,
                body = Some ''hello world'', caption = None, attachments = [],
                timestamp = 1000, edit_count = 0, tombstoned = True\<rparr>)) s of
           (r, s') \<Rightarrow>
             r = Accepted \<and> map tombstoned (messages s') = [True] \<and>
             map operation (audit_log s') = [Create, Tombstone] \<and>
             map actor (audit_log s') = [''bot'', ''mod'']))"
  using mutation_and_audit_atomic
    [where cs = "[(\<lparr>index_up = True, store_up = True, caller = ''bot'', at_time = 1\<rparr>,
        Submit \<lparr>raw_id = Some ''e1'', raw_kind = None, raw_message_id = None,
                raw_chat_id = 42, raw_sender_id = 7, raw_text = Some ''hello world'',
                raw_caption = None, raw_attachments = [], raw_payload = [],
                raw_timestamp = Some 1000\<rparr>),
       (\<lparr>index_up = True, store_up = True, caller = ''bot'', at_time = 2\<rparr>,
        Submit \<lparr>raw_id = Some ''e1'', raw_kind = None, raw_message_id = None,
                raw_chat_id = 42, raw_sender_id = 7, raw_text = Some ''hello world'',
                raw_caption = None, raw_attachments = [], raw_payload = [],
                raw_timestamp = Some 1000\<rparr>),
       (\<lparr>index_up = True, store_up = False, caller = ''mod'', at_time = 3\<rparr>,
        Put False (Message \<lparr>msg_id = ''e1'', chat_id = 42, sender_id = 7,
                body = Some ''hello world'', caption = None, attachments = [],
                timestamp = 1000, edit_count = 0, tombstoned = True\<rparr>))]"
      and c = "(\<lparr>index_up = True, store_up = True, caller = ''mod'', at_time = 4\<rparr>,
            Put False (Message \<lparr>msg_id = ''e1'', chat_id = 42, sender_id = 7,
                body = Some ''hello world'', caption = None, attachments = [],
                timestamp = 1000, edit_count = 0, tombstoned = True\<rparr>))"]
  by (simp add: serve_def submit_def normalize_raw_def gate_def stored_ids_def empty_store_def
        mutate_def current_def put_def record_audit_def ident_of_def operation_of_def
        collection_of_def)

end
